theory Spec2Isabelle
  imports Complex_Main "HOL-Library.Word" "HOL-Library.Signed_Division"
begin

unbundle bit_operations_syntax

section \<open>Machine integers and doubles\<close>

text \<open>
  Every integer of \<^verbatim>\<open>microbench.h\<close> is an \<^verbatim>\<open>int64_t\<close>. It is modelled as a
  64-bit word: \<open>+\<close>, \<open>-\<close> and \<open>*\<close> wrap around (what the usual targets do where the
  C++ standard leaves signed overflow undefined), \<open>sint\<close> reads the two's complement
  value, and every comparison of the source is the signed one (\<open><s\<close>, \<open>\<le>s\<close>).
  Integer division truncates towards zero, as in C++.
\<close>

type_synonym i64 = "64 word"

datatype error = Assertion_failed | Division_by_zero

definition sdiv64 :: "i64 \<Rightarrow> i64 \<Rightarrow> i64" where
  "sdiv64 a b = word_of_int (sint a sdiv sint b)"

text \<open>
  A \<^verbatim>\<open>double\<close> is a real number that the floating-point format represents, and every
  conversion and every arithmetic operation of the source returns the exact result
  rounded to the format. The source does not fix the format and the rounding mode; they
  are a parameter of the model, a \<open>rounding\<close> \<open>R\<close>. Of \<open>rnd R\<close>, the function that
  rounds a real to the format, the model uses three properties, which hold for IEEE 754
  binary64 under each of its rounding modes: rounding is monotone, it leaves its own
  results (the representable numbers) unchanged, and every integer of magnitude up to
  \<open>2\<^sup>5\<^sup>3\<close> is representable. An \<^verbatim>\<open>int64_t\<close> beyond \<open>2\<^sup>5\<^sup>3\<close> and a quotient are rounded.
  Infinities are outside the model: no value of \<^verbatim>\<open>process_stats\<close> exceeds \<open>2\<^sup>1\<^sup>2\<^sup>7\<close> in
  magnitude.
\<close>

typedef rounding =
  "{f :: real \<Rightarrow> real.
      (\<forall>x y. x \<le> y \<longrightarrow> f x \<le> f y) \<and> (\<forall>x. f (f x) = f x) \<and>
      (\<forall>k :: int. \<bar>k\<bar> \<le> 2 ^ 53 \<longrightarrow> f (real_of_int k) = real_of_int k)}"
  morphisms rnd Abs_rounding
  by (rule exI [of _ "\<lambda>x. x"]) simp

text \<open>The rounding of a format that represents every real number.\<close>

definition exact :: rounding where
  "exact = Abs_rounding (\<lambda>x. x)"

text \<open>\<^verbatim>\<open>(double) x\<close>, and the operations \<open>+\<close>, \<open>-\<close>, \<open>*\<close>, \<open>/\<close> and \<^verbatim>\<open>sqrt\<close> of doubles.\<close>

definition to_double :: "rounding \<Rightarrow> i64 \<Rightarrow> real" where
  "to_double R x = rnd R (real_of_int (sint x))"

definition dadd :: "rounding \<Rightarrow> real \<Rightarrow> real \<Rightarrow> real" where
  "dadd R a b = rnd R (a + b)"

definition dsub :: "rounding \<Rightarrow> real \<Rightarrow> real \<Rightarrow> real" where
  "dsub R a b = rnd R (a - b)"

definition dmul :: "rounding \<Rightarrow> real \<Rightarrow> real \<Rightarrow> real" where
  "dmul R a b = rnd R (a * b)"

definition ddiv :: "rounding \<Rightarrow> real \<Rightarrow> real \<Rightarrow> real" where
  "ddiv R a b = rnd R (a / b)"

definition dsqrt :: "rounding \<Rightarrow> real \<Rightarrow> real" where
  "dsqrt R a = rnd R (sqrt a)"

definition SECOND_MILISECONDS :: i64 where
  "SECOND_MILISECONDS = 1000"

definition SECOND_NANOSECONDS :: i64 where
  "SECOND_NANOSECONDS = 1000000000"

definition MILISECOND_NANOSECONDS :: i64 where
  "MILISECOND_NANOSECONDS = sdiv64 SECOND_NANOSECONDS SECOND_MILISECONDS"

text \<open>\<^verbatim>\<open>(int64_t) 1 << 62\<close>, the sentinel of the running minimum.\<close>

definition SENTINEL :: i64 where
  "SENTINEL = push_bit 62 1"

section \<open>Data model\<close>

text \<open>\<^verbatim>\<open>struct Bench_Result\<close>; its \<^verbatim>\<open>batch_size\<close> field is named
  \<open>result_batch_size\<close> here, apart from the field of \<open>Bench_Stats\<close>.\<close>

record Bench_Result =
  mean_ms :: real
  deviation_ms :: real
  max_ms :: real
  min_ms :: real
  result_batch_size :: i64
  iters :: i64

record Bench_Stats =
  batch_count :: i64
  batch_size :: i64
  time_sum :: i64
  squared_time_sum :: i64
  min_batch_time :: i64
  max_batch_time :: i64
  mean_time_estimate :: i64

record Clock_Stats =
  average :: i64
  cs_min :: i64
  cs_max :: i64

section \<open>The environment: the clock and the measured function\<close>

text \<open>
  One execution fixes the value of every clock read and the answer of every call of the
  measured function. \<open>clock_ns k\<close> is the value of read number \<open>k\<close> and
  \<open>measured_fn k\<close> the answer of call number \<open>k\<close> (\<open>False\<close> rejects). The sampler makes
  its calls, its clock reads and its deadline checks one after the other; the order in
  which it makes them is its \<open>log\<close>: \<open>Call c\<close> is call number \<open>c\<close> of the measured
  function, \<open>Clock r\<close> is read number \<open>r\<close> of the clock, and \<open>Deadline_check\<close> is the
  comparison of the total time with the phase deadline (line 161). The state of the
  sampling loop carries the log and how many reads and calls were made so far.
\<close>

datatype event = Call nat | Clock nat | Deadline_check

record loop_state =
  stats :: Bench_Stats
  to_time :: i64
  start :: i64
  from_ns :: i64
  reads :: nat
  calls :: nat
  log :: "event list"

datatype loop_step = Break loop_state | Next loop_state

section \<open>The Adaptive Sampler: \<^verbatim>\<open>gather_bench_stats\<close>\<close>

text \<open>The inner loop, \<^verbatim>\<open>reject |= (int64_t) !measured_fn()\<close>, with \<open>n\<close> turns left. Its
  state is \<^verbatim>\<open>reject\<close>, the number of calls made so far, and the log: each turn makes the
  next call, and nothing else.\<close>

fun run_batch ::
  "(nat \<Rightarrow> bool) \<Rightarrow> nat \<Rightarrow> i64 \<times> nat \<times> event list \<Rightarrow> i64 \<times> nat \<times> event list" where
  "run_batch measured_fn 0 w = w"
| "run_batch measured_fn (Suc n) (reject, c, evs) =
     run_batch measured_fn n
       (reject OR (if measured_fn c then 0 else 1), Suc c, evs @ [Call c])"

text \<open>Lines 149 to 158: a kept batch enters the accumulators.\<close>

definition accumulate :: "Bench_Stats \<Rightarrow> i64 \<Rightarrow> Bench_Stats" where
  "accumulate s batch_time =
     (let delta = batch_time - mean_time_estimate s;
          s1 = s\<lparr>time_sum := time_sum s + delta,
                 squared_time_sum := squared_time_sum s + delta * delta,
                 batch_count := batch_count s + 1\<rparr>;
          s2 = (if delta <s min_batch_time s1 then s1\<lparr>min_batch_time := delta\<rparr> else s1);
          s3 = (if max_batch_time s2 <s delta then s2\<lparr>max_batch_time := delta\<rparr> else s2)
      in s3)"

text \<open>Lines 131 to 159: one batch, the clock read after it, and the accumulation.
  The second component is \<^verbatim>\<open>total_time\<close>.\<close>

definition measure_batch ::
  "(nat \<Rightarrow> bool) \<Rightarrow> (nat \<Rightarrow> i64) \<Rightarrow> loop_state \<Rightarrow> loop_state \<times> i64" where
  "measure_batch measured_fn clock_ns st =
     (let n = nat (sint (batch_size (stats st)));
          w = run_batch measured_fn n (0, calls st, log st);
          reject = fst w;
          now = clock_ns (reads st);
          batch_time = now - from_ns st;
          total_time = now - start st;
          stats' = (if reject = 0 then accumulate (stats st) batch_time else stats st)
      in (st\<lparr>stats := stats', from_ns := now, reads := Suc (reads st),
             calls := fst (snd w), log := snd (snd w) @ [Clock (reads st)]\<rparr>,
          total_time))"

text \<open>Lines 171 to 197: the new estimate, the new batch size, and the reset.\<close>

definition resize :: "i64 \<Rightarrow> i64 \<Rightarrow> i64 \<Rightarrow> i64 \<Rightarrow> Bench_Stats \<Rightarrow> i64 \<Rightarrow> Bench_Stats" where
  "resize max_time_ns batch_time_ns min_batch_size min_end_checks s total_time =
     (let iters0 = batch_count s * batch_size s;
          iters = (if iters0 \<le>s 0 then 1 else iters0);
          estimate = sdiv64 (time_sum s) iters;
          remaining = max_time_ns - total_time;
          num_checks0 = sdiv64 remaining batch_time_ns;
          num_checks = (if num_checks0 <s min_end_checks then min_end_checks else num_checks0);
          den0 = total_time * num_checks;
          den = (if den0 \<le>s 0 then 1 else den0);
          size0 = sdiv64 (iters * remaining) den;
          size1 = (if size0 <s min_batch_size then min_batch_size else size0)
      in s\<lparr>mean_time_estimate := estimate,
            batch_size := size1,
            batch_count := 0,
            time_sum := 0,
            squared_time_sum := 0,
            min_batch_time := SENTINEL,
            max_batch_time := 0\<rparr>)"

text \<open>Lines 161 to 199: the deadline check after a batch.\<close>

definition check_deadline ::
  "i64 \<Rightarrow> i64 \<Rightarrow> i64 \<Rightarrow> i64 \<Rightarrow> loop_state \<times> i64 \<Rightarrow> loop_step" where
  "check_deadline max_time_ns batch_time_ns min_batch_size min_end_checks p =
     (let st = fst p; total_time = snd p
      in if to_time st <s total_time then
           (if max_time_ns <s total_time then Break st
            else Next (st\<lparr>stats := resize max_time_ns batch_time_ns min_batch_size
                                      min_end_checks (stats st) total_time,
                          to_time := max_time_ns\<rparr>))
         else Next st)"

text \<open>One turn of \<^verbatim>\<open>while(true)\<close>: the batch, then the deadline check, which the log
  records.\<close>

definition loop_body ::
  "(nat \<Rightarrow> bool) \<Rightarrow> (nat \<Rightarrow> i64) \<Rightarrow> i64 \<Rightarrow> i64 \<Rightarrow> i64 \<Rightarrow> i64 \<Rightarrow> loop_state \<Rightarrow> loop_step" where
  "loop_body measured_fn clock_ns max_time_ns batch_time_ns min_batch_size min_end_checks st =
     (let p = measure_batch measured_fn clock_ns st;
          st1 = (fst p)\<lparr>log := log (fst p) @ [Deadline_check]\<rparr>
      in check_deadline max_time_ns batch_time_ns min_batch_size min_end_checks (st1, snd p))"

text \<open>The loop itself may run forever: \<open>None\<close> is the run that never leaves it.\<close>

partial_function (option) gather_loop ::
  "(nat \<Rightarrow> bool) \<Rightarrow> (nat \<Rightarrow> i64) \<Rightarrow> i64 \<Rightarrow> i64 \<Rightarrow> i64 \<Rightarrow> i64 \<Rightarrow> loop_state \<Rightarrow> loop_state option"
where
  "gather_loop measured_fn clock_ns max_time_ns batch_time_ns min_batch_size min_end_checks st =
     (case loop_body measured_fn clock_ns max_time_ns batch_time_ns min_batch_size
             min_end_checks st of
        Break st' \<Rightarrow> Some st'
      | Next st' \<Rightarrow> gather_loop measured_fn clock_ns max_time_ns batch_time_ns min_batch_size
                      min_end_checks st')"

declare gather_loop.simps [code]

text \<open>Lines 110 to 128: the state in which the loop is entered. \<open>k\<close> and \<open>c\<close> are the
  numbers of clock reads and of calls made before; the log of the sampler starts with
  the clock read of line 127.\<close>

definition init_state :: "(nat \<Rightarrow> i64) \<Rightarrow> nat \<Rightarrow> nat \<Rightarrow> i64 \<Rightarrow> i64 \<Rightarrow> i64 \<Rightarrow> loop_state" where
  "init_state clock_ns k c max_time_ns warm_up_ns min_batch_size =
     (let to_time0 = warm_up_ns;
          to_time1 = (if max_time_ns <s to_time0 \<or> to_time0 \<le>s 0 then max_time_ns else to_time0)
      in \<lparr>stats = \<lparr>batch_count = 0, batch_size = min_batch_size, time_sum = 0,
                   squared_time_sum = 0, min_batch_time = SENTINEL, max_batch_time = 0,
                   mean_time_estimate = 0\<rparr>,
          to_time = to_time1,
          start = clock_ns k,
          from_ns = clock_ns k,
          reads = Suc k,
          calls = c,
          log = [Clock k]\<rparr>)"

text \<open>The run of \<^verbatim>\<open>gather_bench_stats\<close> up to its last loop state.\<close>

definition gather_run ::
  "(nat \<Rightarrow> bool) \<Rightarrow> (nat \<Rightarrow> i64) \<Rightarrow> nat \<Rightarrow> nat \<Rightarrow> i64 \<Rightarrow> i64 \<Rightarrow> i64 \<Rightarrow> i64 \<Rightarrow> i64 \<Rightarrow>
     (error + loop_state) option" where
  "gather_run measured_fn clock_ns k c max_time_ns warm_up_ns batch_time_ns min_batch_size
     min_end_checks =
     (if \<not> 0 <s min_end_checks then Some (Inl Assertion_failed)
      else if \<not> 0 <s min_batch_size then Some (Inl Assertion_failed)
      else if \<not> 0 \<le>s max_time_ns then Some (Inl Assertion_failed)
      else
        let batch_time_ns' = (if batch_time_ns \<le>s 0 then 1 else batch_time_ns)
        in map_option Inr
             (gather_loop measured_fn clock_ns max_time_ns batch_time_ns' min_batch_size
                min_end_checks
                (init_state clock_ns k c max_time_ns warm_up_ns min_batch_size)))"

definition gather_bench_stats ::
  "(nat \<Rightarrow> bool) \<Rightarrow> (nat \<Rightarrow> i64) \<Rightarrow> nat \<Rightarrow> nat \<Rightarrow> i64 \<Rightarrow> i64 \<Rightarrow> i64 \<Rightarrow> i64 \<Rightarrow> i64 \<Rightarrow>
     (error + Bench_Stats) option" where
  "gather_bench_stats measured_fn clock_ns k c max_time_ns warm_up_ns batch_time_ns
     min_batch_size min_end_checks =
     map_option (map_sum id stats)
       (gather_run measured_fn clock_ns k c max_time_ns warm_up_ns batch_time_ns
          min_batch_size min_end_checks)"

section \<open>The Statistical Reducer: \<^verbatim>\<open>process_stats\<close>\<close>

text \<open>
  The assertions are modelled as compiled in (no \<^verbatim>\<open>NDEBUG\<close>), in the order of the
  source; a failed \<^verbatim>\<open>assert\<close> is the outcome \<open>Assertion_failed\<close>, and a double division
  whose divisor is zero is kept visible as the outcome \<open>Division_by_zero\<close>. \<^verbatim>\<open>abs\<close> is
  the absolute value of a double. Where the effective batch size is negative the C++
  \<^verbatim>\<open>sqrt\<close> is a NaN and \<open>sqrt\<close> here a negative number; neither reaches a result,
  because the only values computed from it are tested after the assertions of lines 290
  and 291, one of which fails for a negative batch size.
\<close>

definition process_stats :: "rounding \<Rightarrow> Bench_Stats \<Rightarrow> i64 \<Rightarrow> error + Bench_Result" where
  "process_stats R s runs_mult =
     (if \<not> min_batch_time s * batch_count s \<le>s time_sum s then Inl Assertion_failed
      else if \<not> time_sum s \<le>s max_batch_time s * batch_count s then Inl Assertion_failed
      else
        let batch_size' = batch_size s * runs_mult;
            iters' = batch_size' * batch_count s;
            batch_deviation_ms =
              (if 1 <s batch_count s then
                 (let n = to_double R (batch_count s);
                      sum = to_double R (time_sum s);
                      sum2 = to_double R (squared_time_sum s);
                      varience_ns = ddiv R (dsub R sum2 (ddiv R (dmul R sum sum) n)) (dsub R n 1)
                  in ddiv R (dsqrt R \<bar>varience_ns\<bar>) (to_double R MILISECOND_NANOSECONDS))
               else 0);
            adjusted_time_sum = time_sum s + mean_time_estimate s * batch_count s;
            adjutsted_min = min_batch_time s + mean_time_estimate s;
            adjutsted_max = max_batch_time s + mean_time_estimate s
        in if \<not> adjutsted_min * batch_count s \<le>s adjusted_time_sum then Inl Assertion_failed
           else if \<not> adjusted_time_sum \<le>s adjutsted_max * batch_count s then Inl Assertion_failed
           else if iters' \<noteq> 0 \<and>
                   (iters' * MILISECOND_NANOSECONDS = 0 \<or> batch_size' * MILISECOND_NANOSECONDS = 0)
             then Inl Division_by_zero
           else
             let mean = (if iters' \<noteq> 0
                    then ddiv R (to_double R adjusted_time_sum)
                           (to_double R (iters' * MILISECOND_NANOSECONDS))
                    else 0);
                 min0 = (if iters' \<noteq> 0
                    then ddiv R (to_double R adjutsted_min)
                           (to_double R (batch_size' * MILISECOND_NANOSECONDS))
                    else 0);
                 max0 = (if iters' \<noteq> 0
                    then ddiv R (to_double R adjutsted_max)
                           (to_double R (batch_size' * MILISECOND_NANOSECONDS))
                    else 0)
             in if \<not> (0 \<le> mean \<and> 0 \<le> min0 \<and> 0 \<le> max0) then Inl Assertion_failed
                else
                  let sqrt_batch_size =
                        (if batch_size' = 0 then 1 else dsqrt R (to_double R batch_size'));
                      deviation = ddiv R batch_deviation_ms sqrt_batch_size;
                      min1 = dadd R mean (dmul R (dsub R min0 mean) sqrt_batch_size);
                      max1 = dadd R mean (dmul R (dsub R max0 mean) sqrt_batch_size);
                      min2 = (if min1 < 0 then 0 else min1);
                      result = \<lparr>mean_ms = mean, deviation_ms = deviation, max_ms = max1,
                                min_ms = min2, result_batch_size = batch_size', iters = iters'\<rparr>
                  in if \<not> 0 \<le>s iters result then Inl Assertion_failed
                     else if \<not> 0 \<le>s result_batch_size result then Inl Assertion_failed
                     else if \<not> 0 \<le> min_ms result then Inl Assertion_failed
                     else if \<not> 0 \<le> max_ms result then Inl Assertion_failed
                     else if \<not> 0 \<le> mean_ms result then Inl Assertion_failed
                     else if \<not> 0 \<le> deviation_ms result then Inl Assertion_failed
                     else if \<not> (min_ms result \<le> mean_ms result \<and> mean_ms result \<le> max_ms result)
                       then Inl Assertion_failed
                     else Inr result)"

section \<open>The Clock Calibrator: \<^verbatim>\<open>calculate_clock_stats\<close>\<close>

text \<open>The \<open>for\<close> loop, with \<open>n\<close> turns left and \<open>k\<close> clock reads made so far; the third
  component of its state is \<^verbatim>\<open>sum\<close>.\<close>

fun clock_loop :: "(nat \<Rightarrow> i64) \<Rightarrow> nat \<Rightarrow> nat \<Rightarrow> Clock_Stats \<times> i64 \<Rightarrow> Clock_Stats \<times> i64" where
  "clock_loop clock_ns k 0 acc = acc"
| "clock_loop clock_ns k (Suc n) acc =
     (let cs = fst acc; sum = snd acc;
          from_v = clock_ns k;
          to_v = clock_ns (Suc k);
          diff = to_v - from_v;
          sum' = sum + diff;
          cs1 = (if diff <s cs_min cs then cs\<lparr>cs_min := diff\<rparr> else cs);
          cs2 = (if cs_max cs1 <s diff then cs1\<lparr>cs_max := diff\<rparr> else cs1)
      in clock_loop clock_ns (Suc (Suc k)) n (cs2, sum'))"

text \<open>An integer division by zero (\<^verbatim>\<open>runs == 0\<close>) is the outcome \<open>Division_by_zero\<close>.\<close>

definition calculate_clock_stats :: "(nat \<Rightarrow> i64) \<Rightarrow> nat \<Rightarrow> i64 \<Rightarrow> error + Clock_Stats" where
  "calculate_clock_stats clock_ns k runs =
     (let cs0 = \<lparr>average = 0, cs_min = SENTINEL, cs_max = SENTINEL * (- 1)\<rparr>;
          r = clock_loop clock_ns k (nat (sint runs)) (cs0, 0);
          cs = fst r; sum = snd r
      in if runs = 0 then Inl Division_by_zero
         else
           let cs' = cs\<lparr>average := sdiv64 sum runs\<rparr>
           in Inr (if average cs' = 0 then cs'\<lparr>average := average cs' + 1\<rparr> else cs'))"

section \<open>The Facade: \<^verbatim>\<open>benchmark\<close>\<close>

text \<open>The two calibration passes read the clock \<open>2 * 100\<close> and \<open>2 * 1000\<close> times before
  the sampler starts.\<close>

definition benchmark ::
  "rounding \<Rightarrow> (nat \<Rightarrow> bool) \<Rightarrow> (nat \<Rightarrow> i64) \<Rightarrow> i64 \<Rightarrow> i64 \<Rightarrow> i64 \<Rightarrow> i64 \<Rightarrow>
     (error + Bench_Result) option" where
  "benchmark R measured_fn clock_ns max_time_ms warm_up_ms runs_mult
     batch_of_clock_accuarcy_multiple =
     (case calculate_clock_stats clock_ns 0 100 of
        Inl e \<Rightarrow> Some (Inl e)
      | Inr warm_up \<Rightarrow>
          (case calculate_clock_stats clock_ns 200 1000 of
             Inl e \<Rightarrow> Some (Inl e)
           | Inr clock_stats \<Rightarrow>
               (case gather_bench_stats measured_fn clock_ns 2200 0
                       (max_time_ms * MILISECOND_NANOSECONDS)
                       (warm_up_ms * MILISECOND_NANOSECONDS)
                       (batch_of_clock_accuarcy_multiple * average clock_stats) 1 5 of
                  None \<Rightarrow> None
                | Some (Inl e) \<Rightarrow> Some (Inl e)
                | Some (Inr s) \<Rightarrow> Some (process_stats R s runs_mult))))"

definition benchmark_default_warm_up ::
  "rounding \<Rightarrow> (nat \<Rightarrow> bool) \<Rightarrow> (nat \<Rightarrow> i64) \<Rightarrow> i64 \<Rightarrow> i64 \<Rightarrow> i64 \<Rightarrow>
     (error + Bench_Result) option" where
  "benchmark_default_warm_up R measured_fn clock_ns max_time_ms runs_mult
     batch_of_clock_accuarcy_multiple =
     benchmark R measured_fn clock_ns max_time_ms (sdiv64 max_time_ms 20 + 1) runs_mult
       batch_of_clock_accuarcy_multiple"

section \<open>Readings of the specification\<close>

text \<open>The deviation as the specification words it: the batch deviation in milliseconds,
  divided by the square root of the effective batch size, whatever that size is.\<close>

definition spec_deviation_ms :: "rounding \<Rightarrow> Bench_Stats \<Rightarrow> i64 \<Rightarrow> real" where
  "spec_deviation_ms R s runs_mult =
     (if batch_count s \<le>s 1 then 0
      else ddiv R
             (ddiv R
                (dsqrt R \<bar>ddiv R
                    (dsub R (to_double R (squared_time_sum s))
                       (ddiv R (dmul R (to_double R (time_sum s)) (to_double R (time_sum s)))
                          (to_double R (batch_count s))))
                    (dsub R (to_double R (batch_count s)) 1)\<bar>)
                (to_double R 1000000))
             (dsqrt R (to_double R (batch_size s * runs_mult))))"

text \<open>The new batch size as the specification words it, with the unclamped product
  \<open>batch_count * batch_size\<close> in the numerator.\<close>

definition spec_resize_batch_size ::
  "i64 \<Rightarrow> i64 \<Rightarrow> i64 \<Rightarrow> i64 \<Rightarrow> Bench_Stats \<Rightarrow> i64 \<Rightarrow> i64" where
  "spec_resize_batch_size max_time_ns noise_floor_ns min_batch_size min_end_checks s total_elapsed =
     (let remaining = max_time_ns - total_elapsed;
          num_checks0 = sdiv64 remaining noise_floor_ns;
          num_checks = (if num_checks0 <s min_end_checks then min_end_checks else num_checks0);
          den0 = total_elapsed * num_checks;
          den = (if den0 \<le>s 0 then 1 else den0);
          size0 = sdiv64 (batch_count s * batch_size s * remaining) den
      in if size0 <s min_batch_size then min_batch_size else size0)"

text \<open>A clock that advances across each of the \<open>n\<close> batches after read number \<open>k\<close>:
  the elapsed time that the sampler computes, \<^verbatim>\<open>now - start\<close>, grows by at least 1 ns
  from each read to the next.\<close>

definition clock_advances :: "(nat \<Rightarrow> i64) \<Rightarrow> nat \<Rightarrow> nat \<Rightarrow> bool" where
  "clock_advances clock_ns k n \<longleftrightarrow>
     (\<forall>j<n. clock_ns (k + j) - clock_ns k <s clock_ns (k + Suc j) - clock_ns k)"

text \<open>The log of whole batches: the batches have \<open>ns\<close> calls in turn, the first call is
  number \<open>c\<close>, and each batch is followed by one clock read, the first of them read
  number \<open>r\<close>, and by the deadline check. Within a batch the calls follow one another
  with nothing in between.\<close>

fun batches :: "nat \<Rightarrow> nat \<Rightarrow> nat list \<Rightarrow> event list" where
  "batches c r [] = []"
| "batches c r (n # ns) =
     map Call [c..<c + n] @ Clock r # Deadline_check # batches (c + n) (Suc r) ns"

text \<open>Statistics in which no batch has been kept since the last reset.\<close>

definition idle :: "i64 \<Rightarrow> Bench_Stats \<Rightarrow> bool" where
  "idle min_batch_size s \<longleftrightarrow>
     batch_count s = 0 \<and> time_sum s = 0 \<and> squared_time_sum s = 0 \<and>
     min_batch_time s = SENTINEL \<and> max_batch_time s = 0 \<and> mean_time_estimate s = 0 \<and>
     min_batch_size \<le>s batch_size s"

text \<open>The deltas that \<^verbatim>\<open>calculate_clock_stats\<close> observes in \<open>n\<close> turns from read \<open>k\<close>.\<close>

definition clock_deltas :: "(nat \<Rightarrow> i64) \<Rightarrow> nat \<Rightarrow> nat \<Rightarrow> i64 list" where
  "clock_deltas clock_ns k n =
     map (\<lambda>i. clock_ns (k + 2 * i + 1) - clock_ns (k + 2 * i)) [0..<n]"




section \<open>Concrete executions\<close>

text \<open>A measured function that keeps every call, and one that rejects every call.\<close>

definition always_keep :: "nat \<Rightarrow> bool" where
  "always_keep k = True"

definition always_reject :: "nat \<Rightarrow> bool" where
  "always_reject k = False"

text \<open>A clock that returns the elements of a list, one per read.\<close>

definition clock_of_list :: "i64 list \<Rightarrow> nat \<Rightarrow> i64" where
  "clock_of_list xs k = (if k < length xs then xs ! k else last xs)"

text \<open>A clock that stands at 0 during the calibration (reads 0 to 2199) and at the
  start of sampling, shows 1000000001 ns after the first batch and 15000000001 ns
  from then on.\<close>

definition stall_clock :: "nat \<Rightarrow> i64" where
  "stall_clock k = (if k \<le> 2200 then 0 else if k = 2201 then 1000000001 else 15000000001)"

text \<open>A clock on which each of the first \<open>K\<close> batches takes \<open>d\<close> ns and the next one
  \<open>D\<close> ns: read \<open>j\<close> shows \<open>j * d\<close> up to \<open>j = K\<close>, and \<open>K * d + D\<close> afterwards.\<close>

definition steady_then_stall :: "nat \<Rightarrow> i64 \<Rightarrow> i64 \<Rightarrow> nat \<Rightarrow> i64" where
  "steady_then_stall K d D j = (if j \<le> K then of_nat j * d else of_nat K * d + D)"

text \<open>The loop state after \<open>j\<close> kept batches of \<open>d\<close> ns each, one call per batch, without
  warm-up and with \<open>max_time_ns = K * d\<close>.\<close>

definition steady_state :: "nat \<Rightarrow> i64 \<Rightarrow> nat \<Rightarrow> loop_state" where
  "steady_state K d j =
     \<lparr>stats = \<lparr>batch_count = of_nat j, batch_size = 1, time_sum = of_nat j * d,
               squared_time_sum = of_nat j * (d * d),
               min_batch_time = (if j = 0 then SENTINEL else d),
               max_batch_time = (if j = 0 then 0 else d),
               mean_time_estimate = 0\<rparr>,
      to_time = of_nat K * d, start = 0, from_ns = of_nat j * d, reads = Suc j, calls = j,
      log = Clock 0 # batches 0 1 (replicate j 1)\<rparr>"

text \<open>Statistics of three kept batches of four calls each that took 4, 8 and 12 ms, with
  an estimate of 1 ms taken off each of them.\<close>

definition three_batches :: Bench_Stats where
  "three_batches =
     \<lparr>batch_count = 3, batch_size = 4, time_sum = 21000000,
      squared_time_sum = 179000000000000, min_batch_time = 3000000,
      max_batch_time = 11000000, mean_time_estimate = 1000000\<rparr>"

section \<open>Constants\<close>

lemma MILISECOND_NANOSECONDS_eq: "MILISECOND_NANOSECONDS = 1000000"
  by (simp add: MILISECOND_NANOSECONDS_def SECOND_NANOSECONDS_def SECOND_MILISECONDS_def
      sdiv64_def signed_divide_int_def)

lemma SENTINEL_eq: "SENTINEL = 4611686018427387904"
  by (simp add: SENTINEL_def)

section \<open>Rounding\<close>

lemma rnd_mono: "x \<le> y \<Longrightarrow> rnd R x \<le> rnd R y"
  using rnd [of R] by simp

lemma rnd_idem [simp]: "rnd R (rnd R x) = rnd R x"
  using rnd [of R] by simp

lemma rnd_of_int: "\<bar>k\<bar> \<le> 2 ^ 53 \<Longrightarrow> rnd R (real_of_int k) = real_of_int k"
  using rnd [of R] by simp

lemma rnd_0 [simp]: "rnd R 0 = 0"
  using rnd_of_int [of 0 R] by simp

lemma rnd_1 [simp]: "rnd R 1 = 1"
  using rnd_of_int [of 1 R] by simp

lemma rnd_neg_1 [simp]: "rnd R (- 1) = - 1"
  using rnd_of_int [of "- 1" R] by simp

lemma rnd_numeral [simp]:
  "numeral n \<le> (2 :: int) ^ 53 \<Longrightarrow> rnd R (numeral n) = numeral n"
  using rnd_of_int [of "numeral n" R] by simp

lemma rnd_neg_numeral [simp]:
  "numeral n \<le> (2 :: int) ^ 53 \<Longrightarrow> rnd R (- numeral n) = - numeral n"
  using rnd_of_int [of "- numeral n" R] by simp

lemma rnd_nonneg: "0 \<le> x \<Longrightarrow> 0 \<le> rnd R x"
  using rnd_mono [of 0 x R] by simp


lemma rnd_ge_1: "1 \<le> x \<Longrightarrow> 1 \<le> rnd R x"
  using rnd_mono [of 1 x R] by simp

lemma rnd_exact [simp]: "rnd exact x = x"
  by (simp add: exact_def Abs_rounding_inverse)

text \<open>The conversion of an \<^verbatim>\<open>int64_t\<close> is zero only for 0, so the integer test of a
  divisor in \<open>process_stats\<close> is the test of the double.\<close>

lemma to_double_eq_0_iff: "to_double R x = 0 \<longleftrightarrow> x = 0"
proof
  assume z: "to_double R x = 0"
  show "x = 0"
  proof (rule ccontr)
    assume "x \<noteq> 0"
    then have "sint x \<noteq> 0" by (simp add: signed_eq_0_iff)
    then consider "1 \<le> real_of_int (sint x)" | "real_of_int (sint x) \<le> - 1" by linarith
    then show False
    proof cases
      case 1
      from rnd_ge_1 [OF this, of R] z show False
        by (simp add: to_double_def del: of_int_sint)
    next
      case 2
      from rnd_mono [OF this, of R] z show False
        by (simp add: to_double_def del: of_int_sint)
    qed
  qed
qed (simp add: to_double_def)


lemma to_double_numeral [simp]:
  "to_double R 0 = 0" "to_double R 1 = 1"
  by (simp_all add: to_double_def)

section \<open>The reducer on concrete statistics\<close>

lemma sqrt_16e12: "sqrt 16000000000000 = 4000000"
  by (rule real_sqrt_unique) simp_all

lemma sqrt_1e12: "sqrt 1000000000000 = 1000000"
  by (rule real_sqrt_unique) simp_all

text \<open>Three batches of four calls that took 4, 8 and 12 ms. Every intermediate value of
  \<^verbatim>\<open>process_stats\<close> is an integer below \<open>2\<^sup>5\<^sup>3\<close>, so the result is the same under every
  rounding: a mean of 2 ms per call, a minimum of \<open>2 + (1 - 2) * sqrt 4 = 0\<close>, a maximum
  of \<open>2 + (3 - 2) * sqrt 4 = 4\<close> and a deviation of \<open>4 / sqrt 4 = 2\<close>.\<close>

lemma process_stats_example:
  "process_stats R three_batches 1 =
   Inr \<lparr>mean_ms = 2, deviation_ms = 2, max_ms = 4, min_ms = 0,
        result_batch_size = 4, iters = 12\<rparr>"
  by (simp add: process_stats_def three_batches_def Let_def MILISECOND_NANOSECONDS_eq
      to_double_def dadd_def dsub_def dmul_def ddiv_def dsqrt_def sqrt_16e12
      word_sle_eq word_sless_alt)

text \<open>Three deltas of 0, 1 and 2 ms with an effective batch size of 0: the guard of line
  267 divides the batch deviation, 1 ms, by 1.\<close>

lemma process_stats_zero_size_example:
  "process_stats R \<lparr>batch_count = 3, batch_size = 0, time_sum = 3000000,
        squared_time_sum = 5000000000000, min_batch_time = 0, max_batch_time = 2000000,
        mean_time_estimate = 0\<rparr> 1 =
   Inr \<lparr>mean_ms = 0, deviation_ms = 1, max_ms = 0,
        min_ms = 0, result_batch_size = 0, iters = 0\<rparr>"
  by (simp add: process_stats_def Let_def MILISECOND_NANOSECONDS_eq
      to_double_def dadd_def dsub_def dmul_def ddiv_def dsqrt_def sqrt_1e12
      word_sle_eq word_sless_alt)


section \<open>The reducer returns on well-formed statistics\<close>




lemma ddiv_nonneg: "0 \<le> x \<Longrightarrow> 0 \<le> y \<Longrightarrow> 0 \<le> ddiv R x y"
  by (simp add: ddiv_def rnd_nonneg)


lemma to_double_nonneg: "0 \<le> sint x \<Longrightarrow> 0 \<le> to_double R x"
  by (simp add: to_double_def rnd_nonneg del: of_int_sint)

lemma dsub_self [simp]: "dsub R x x = 0"
  by (simp add: dsub_def)

lemma dmul_0_left [simp]: "dmul R 0 y = 0"
  by (simp add: dmul_def)

lemma dadd_0_right [simp]: "dadd R x 0 = rnd R x"
  by (simp add: dadd_def)

lemma ddiv_0_left [simp]: "ddiv R 0 y = 0"
  by (simp add: ddiv_def)

lemma ddiv_idem [simp]: "rnd R (ddiv R x y) = ddiv R x y"
  by (simp add: ddiv_def)






section \<open>C1: the invariant of the result\<close>




section \<open>C5: the reported deviation\<close>

text \<open>
  C5, as stated, fails where the effective batch size is 0: the code then divides the
  batch deviation by 1 (line 267), not by the square root of the batch size. With three
  deltas of 0, 1 and 2 ms and \<open>batch_size = 0\<close> the reported deviation is 1 ms, under
  every rounding, which is not the quotient of the specification (a division by
  \<open>sqrt 0\<close>).
\<close>

theorem process_stats_deviation_zero_size_counterexample:
  "process_stats exact \<lparr>batch_count = 3, batch_size = 0, time_sum = 3000000,
        squared_time_sum = 5000000000000, min_batch_time = 0, max_batch_time = 2000000,
        mean_time_estimate = 0\<rparr> 1 =
   Inr \<lparr>mean_ms = 0, deviation_ms = 1, max_ms = 0,
        min_ms = 0, result_batch_size = 0, iters = 0\<rparr>
   \<and> spec_deviation_ms exact \<lparr>batch_count = 3, batch_size = 0, time_sum = 3000000,
        squared_time_sum = 5000000000000, min_batch_time = 0, max_batch_time = 2000000,
        mean_time_estimate = 0\<rparr> 1 \<noteq> 1
   \<and> dsqrt exact (to_double exact (0 * 1)) = 0"
  using process_stats_zero_size_example [of exact]
  by (simp add: spec_deviation_ms_def to_double_def dsub_def dmul_def ddiv_def dsqrt_def
      word_sle_eq)

text \<open>
  C5, amended: in every result that \<^verbatim>\<open>process_stats\<close> returns, the deviation is 0 when
  \<open>batch_count \<le> 1\<close>; otherwise it is
  \<open>sqrt \<bar>(sum2 - sum\<^sup>2 / n) / (n - 1)\<bar>\<close> with \<open>n = batch_count\<close>, divided by 1000000
  (nanoseconds to milliseconds) and by the square root of the effective batch size, or
  by 1 when the effective batch size is 0, every operation on doubles. It is never
  negative.
\<close>

theorem process_stats_deviation:
  assumes "process_stats R s runs_mult = Inr r"
  shows "deviation_ms r =
     (if batch_count s \<le>s 1 then 0
      else ddiv R
             (ddiv R
                (dsqrt R \<bar>ddiv R
                    (dsub R (to_double R (squared_time_sum s))
                       (ddiv R (dmul R (to_double R (time_sum s)) (to_double R (time_sum s)))
                          (to_double R (batch_count s))))
                    (dsub R (to_double R (batch_count s)) 1)\<bar>)
                (to_double R 1000000))
             (if batch_size s * runs_mult = 0 then 1
              else dsqrt R (to_double R (batch_size s * runs_mult))))
     \<and> 0 \<le> deviation_ms r"
  using assms
  by (auto simp: process_stats_def Let_def MILISECOND_NANOSECONDS_eq split: if_splits)

theorem process_stats_deviation_witness:
  "process_stats exact three_batches 1 =
   Inr \<lparr>mean_ms = 2, deviation_ms = 2, max_ms = 4, min_ms = 0,
        result_batch_size = 4, iters = 12\<rparr>
   \<and> \<not> batch_count three_batches \<le>s 1
   \<and> (2::real) =
       sqrt \<bar>(179000000000000 - 21000000 * 21000000 / 3) / (3 - 1)\<bar> / 1000000 / sqrt 4"
  using process_stats_deviation [OF process_stats_example [of exact]]
    process_stats_example [of exact]
  by (simp add: three_batches_def to_double_def dsub_def dmul_def ddiv_def dsqrt_def
      word_sle_eq sqrt_16e12)

section \<open>C10: the mean is left alone by the batch-size correction\<close>

text \<open>
  C10: in every result that \<^verbatim>\<open>process_stats\<close> returns, \<open>mean_ms\<close> is 0 when
  \<open>iters = 0\<close> and otherwise exactly the double quotient
  \<open>(time_sum + mean_time_estimate * batch_count) / (iters * 1000000)\<close>, with
  \<open>iters = batch_size * runs_mult * batch_count\<close>: the factor \<open>sqrt batch_size\<close> that
  corrects the deviation, the minimum and the maximum does not occur in it.
\<close>

theorem process_stats_mean_uncorrected:
  assumes "process_stats R s runs_mult = Inr r"
  shows "mean_ms r =
     (if batch_size s * runs_mult * batch_count s = 0 then 0
      else ddiv R (to_double R (time_sum s + mean_time_estimate s * batch_count s))
             (to_double R (batch_size s * runs_mult * batch_count s * 1000000)))"
  using assms
  by (auto simp: process_stats_def Let_def MILISECOND_NANOSECONDS_eq split: if_splits)

theorem process_stats_mean_uncorrected_witness:
  "process_stats exact three_batches 1 =
   Inr \<lparr>mean_ms = 2, deviation_ms = 2, max_ms = 4, min_ms = 0,
        result_batch_size = 4, iters = 12\<rparr>
   \<and> batch_size three_batches * 1 * batch_count three_batches \<noteq> 0
   \<and> (2::real) = (21000000 + 1000000 * 3) / (4 * 1 * 3 * 1000000)"
  using process_stats_mean_uncorrected [OF process_stats_example [of exact]]
    process_stats_example [of exact]
  by (simp add: three_batches_def to_double_def ddiv_def)

section \<open>One batch\<close>

lemma clock_of_list_simps [simp]:
  "clock_of_list (x # xs) 0 = x"
  "xs \<noteq> [] \<Longrightarrow> clock_of_list (x # xs) (Suc k) = clock_of_list xs k"
  by (auto simp: clock_of_list_def)

text \<open>The inner loop rejects iff one of its \<open>n\<close> calls does; it makes the \<open>n\<close> calls
  \<open>c, \<dots>, c + n - 1\<close>, in this order, and nothing else.\<close>

lemma run_batch_reject:
  "fst (run_batch measured_fn n (reject, c, evs)) = 0 \<longleftrightarrow>
     reject = 0 \<and> (\<forall>i<n. measured_fn (c + i))"
proof (induction n arbitrary: c reject evs)
  case 0
  then show ?case by simp
next
  case (Suc n)
  have "(\<forall>i<Suc n. measured_fn (c + i)) \<longleftrightarrow> measured_fn c \<and> (\<forall>i<n. measured_fn (Suc c + i))"
    by (auto simp: less_Suc_eq_0_disj)
  with Suc show ?case by (auto simp: or_eq_0_iff)
qed

lemma run_batch_calls:
  "fst (snd (run_batch measured_fn n (reject, c, evs))) = c + n"
  by (induction n arbitrary: c reject evs) simp_all

lemma run_batch_log:
  "snd (snd (run_batch measured_fn n (reject, c, evs))) = evs @ map Call [c..<c + n]"
proof (induction n arbitrary: c reject evs)
  case 0
  then show ?case by simp
next
  case (Suc n)
  have "[c..<c + Suc n] = c # [Suc c..<Suc c + n]"
    by (simp add: upt_conv_Cons)
  with Suc show ?case by simp
qed

lemma accumulate_keeps [simp]:
  "batch_size (accumulate s t) = batch_size s"
  "mean_time_estimate (accumulate s t) = mean_time_estimate s"
  by (simp_all add: accumulate_def Let_def)

lemma resize_batch_size_ge:
  "mbs \<le>s batch_size (resize M b mbs mec s tt)"
  by (simp add: resize_def Let_def word_sle_eq word_sless_alt)

lemma measure_batch_eq:
  "measure_batch fn clk st =
     (st\<lparr>stats :=
          (if \<forall>i < nat (sint (batch_size (stats st))). fn (calls st + i)
           then accumulate (stats st) (clk (reads st) - from_ns st)
           else stats st),
         from_ns := clk (reads st),
         reads := Suc (reads st),
         calls := calls st + nat (sint (batch_size (stats st))),
         log := log st @
           map Call [calls st..<calls st + nat (sint (batch_size (stats st)))] @
           [Clock (reads st)]\<rparr>,
      clk (reads st) - start st)"
  by (simp add: measure_batch_def Let_def run_batch_reject run_batch_calls run_batch_log)

lemma loop_body_cases:
  "loop_body fn clk M b mbs mec st =
    (let st0 = fst (measure_batch fn clk st);
         st1 = st0\<lparr>log := log st0 @ [Deadline_check]\<rparr>;
         tt = clk (reads st) - start st
     in if to_time st <s tt then
          (if M <s tt then Break st1
           else Next (st1\<lparr>stats := resize M b mbs mec (stats st1) tt, to_time := M\<rparr>))
        else Next st1)"
  by (simp add: loop_body_def check_deadline_def measure_batch_def Let_def)

section \<open>C4: a rejected batch\<close>

text \<open>
  C4: one batch makes \<open>batch_size\<close> calls, one after the other, and then reads the
  clock. If every one of the calls returns true, the delta
  \<open>(now - from) - mean_time_estimate\<close> is added to \<open>time_sum\<close>, its square to
  \<open>squared_time_sum\<close>, \<open>batch_count\<close> grows by 1, and the minimum and the maximum are
  updated from the delta. If a single call returns false, the statistics stay as they
  were. In both cases \<open>from\<close> becomes \<open>now\<close> and the total time handed to the deadline
  checks is \<open>now - start\<close>.
\<close>

theorem measure_batch_accumulators:
  "measure_batch measured_fn clock_ns st =
     (st\<lparr>stats :=
          (if \<forall>i < nat (sint (batch_size (stats st))). measured_fn (calls st + i)
           then (let delta = clock_ns (reads st) - from_ns st - mean_time_estimate (stats st)
                 in (stats st)\<lparr>time_sum := time_sum (stats st) + delta,
                      squared_time_sum := squared_time_sum (stats st) + delta * delta,
                      batch_count := batch_count (stats st) + 1,
                      min_batch_time := (if delta <s min_batch_time (stats st) then delta
                                         else min_batch_time (stats st)),
                      max_batch_time := (if max_batch_time (stats st) <s delta then delta
                                         else max_batch_time (stats st))\<rparr>)
           else stats st),
         from_ns := clock_ns (reads st),
         reads := Suc (reads st),
         calls := calls st + nat (sint (batch_size (stats st))),
         log := log st @
           map Call [calls st..<calls st + nat (sint (batch_size (stats st)))] @
           [Clock (reads st)]\<rparr>,
      clock_ns (reads st) - start st)"
  by (auto simp: measure_batch_eq Let_def accumulate_def)

theorem measure_batch_accumulators_witness:
  "measure_batch always_keep (clock_of_list [0, 7])
     \<lparr>stats = \<lparr>batch_count = 0, batch_size = 2, time_sum = 0, squared_time_sum = 0,
        min_batch_time = SENTINEL, max_batch_time = 0, mean_time_estimate = 3\<rparr>,
      to_time = 100, start = 0, from_ns = 0, reads = 1, calls = 0, log = [Clock 0]\<rparr> =
   (\<lparr>stats = \<lparr>batch_count = 1, batch_size = 2, time_sum = 4, squared_time_sum = 16,
        min_batch_time = 4, max_batch_time = 4, mean_time_estimate = 3\<rparr>,
      to_time = 100, start = 0, from_ns = 7, reads = 2, calls = 2,
      log = [Clock 0, Call 0, Call 1, Clock 1]\<rparr>, 7)
   \<and> measure_batch (\<lambda>i. i \<noteq> 1) (clock_of_list [0, 7])
     \<lparr>stats = \<lparr>batch_count = 0, batch_size = 2, time_sum = 0, squared_time_sum = 0,
        min_batch_time = SENTINEL, max_batch_time = 0, mean_time_estimate = 3\<rparr>,
      to_time = 100, start = 0, from_ns = 0, reads = 1, calls = 0, log = [Clock 0]\<rparr> =
   (\<lparr>stats = \<lparr>batch_count = 0, batch_size = 2, time_sum = 0, squared_time_sum = 0,
        min_batch_time = SENTINEL, max_batch_time = 0, mean_time_estimate = 3\<rparr>,
      to_time = 100, start = 0, from_ns = 7, reads = 2, calls = 2,
      log = [Clock 0, Call 0, Call 1, Clock 1]\<rparr>, 7)"
  by (simp add: measure_batch_accumulators SENTINEL_eq word_sless_alt numeral_2_eq_2
      All_less_Suc always_keep_def upt_conv_Cons)

section \<open>C2: the resize checkpoint\<close>

text \<open>
  C2, as stated, fails when no batch was kept before the checkpoint. The code clamps
  \<open>iters = batch_count * batch_size\<close> to 1 (lines 171 to 173) and uses the clamped
  value in the numerator of the new batch size too (line 188). With a measured function
  that rejects its first call, a warm-up of 1 ns, 1002 ns in all, a noise floor of
  1000 ns and a first batch of 2 ns, the new batch size is \<open>1 * 1000 / (2 * 5) = 100\<close>,
  where the formula of the claim gives \<open>0 * 1 * 1000 / (2 * 5) = 0\<close>, clamped to 1.
\<close>

theorem resize_rejected_warm_up_counterexample:
  "loop_body always_reject (clock_of_list [0, 2]) 1002 1000 1 5
     (init_state (clock_of_list [0, 2]) 0 0 1002 1 1) =
   Next \<lparr>stats = \<lparr>batch_count = 0, batch_size = 100, time_sum = 0, squared_time_sum = 0,
                  min_batch_time = SENTINEL, max_batch_time = 0, mean_time_estimate = 0\<rparr>,
         to_time = 1002, start = 0, from_ns = 2, reads = 2, calls = 1,
         log = [Clock 0, Call 0, Clock 1, Deadline_check]\<rparr>
  \<and> spec_resize_batch_size 1002 1000 1 5
       \<lparr>batch_count = 0, batch_size = 1, time_sum = 0, squared_time_sum = 0,
                  min_batch_time = SENTINEL, max_batch_time = 0, mean_time_estimate = 0\<rparr> 2 = 1"
  by (simp add: loop_body_def init_state_def measure_batch_def always_reject_def
      check_deadline_def resize_def
      Let_def sdiv64_def signed_divide_int_def word_sle_eq word_sless_alt
      spec_resize_batch_size_def clock_of_list_def)

text \<open>
  C2, amended: at every resize checkpoint (total time past the phase deadline, not past
  \<open>max_time_ns\<close>) the sampler takes \<open>iters = batch_count * batch_size\<close>, clamped to at
  least 1, sets \<open>mean_time_estimate = time_sum / iters\<close> and
  \<open>batch_size = (iters * remaining) / (total_time * num_checks)\<close> with the same clamped
  \<open>iters\<close>, \<open>num_checks = max (remaining / batch_time_ns) min_end_checks\<close> and the
  divisor replaced by 1 when it is not positive; the new batch size is clamped to at
  least \<open>min_batch_size\<close>; \<open>batch_count\<close>, \<open>time_sum\<close>, \<open>squared_time_sum\<close>, the minimum
  and the maximum return to their initial values, and the phase deadline becomes
  \<open>max_time_ns\<close>. All arithmetic is that of \<^verbatim>\<open>int64_t\<close>.
\<close>

theorem check_deadline_checkpoint:
  assumes "to_time st <s total_time" and "\<not> max_time_ns <s total_time"
  shows "check_deadline max_time_ns batch_time_ns min_batch_size min_end_checks (st, total_time) =
     Next (st\<lparr>stats :=
       (let iters0 = batch_count (stats st) * batch_size (stats st);
            iters = (if iters0 \<le>s 0 then 1 else iters0);
            remaining = max_time_ns - total_time;
            num_checks0 = sdiv64 remaining batch_time_ns;
            num_checks = (if num_checks0 <s min_end_checks then min_end_checks else num_checks0);
            den0 = total_time * num_checks;
            den = (if den0 \<le>s 0 then 1 else den0);
            size0 = sdiv64 (iters * remaining) den
        in \<lparr>batch_count = 0,
            batch_size = (if size0 <s min_batch_size then min_batch_size else size0),
            time_sum = 0,
            squared_time_sum = 0,
            min_batch_time = SENTINEL,
            max_batch_time = 0,
            mean_time_estimate = sdiv64 (time_sum (stats st)) iters\<rparr>),
       to_time := max_time_ns\<rparr>)"
  using assms
  by (simp add: check_deadline_def resize_def Let_def)

theorem check_deadline_checkpoint_witness:
  "(1 :: i64) <s 2 \<and> \<not> (1002 :: i64) <s 2 \<and>
   check_deadline 1002 1000 1 5
     (\<lparr>stats = \<lparr>batch_count = 1, batch_size = 1, time_sum = 2, squared_time_sum = 4,
        min_batch_time = 2, max_batch_time = 2, mean_time_estimate = 0\<rparr>,
      to_time = 1, start = 0, from_ns = 2, reads = 2, calls = 1,
      log = [Clock 0, Call 0, Clock 1, Deadline_check]\<rparr>, 2) =
   Next \<lparr>stats = \<lparr>batch_count = 0, batch_size = 100, time_sum = 0, squared_time_sum = 0,
        min_batch_time = SENTINEL, max_batch_time = 0, mean_time_estimate = 2\<rparr>,
      to_time = 1002, start = 0, from_ns = 2, reads = 2, calls = 1,
      log = [Clock 0, Call 0, Clock 1, Deadline_check]\<rparr>"
proof -
  have h1: "(1 :: i64) <s 2" and h2: "\<not> (1002 :: i64) <s 2"
    by (simp_all add: word_sless_alt)
  have h1': "to_time \<lparr>stats = \<lparr>batch_count = 1, batch_size = 1, time_sum = 2,
        squared_time_sum = 4, min_batch_time = 2, max_batch_time = 2, mean_time_estimate = 0\<rparr>,
      to_time = 1, start = 0, from_ns = 2, reads = 2, calls = 1,
      log = [Clock 0, Call 0, Clock 1, Deadline_check]\<rparr> <s (2::i64)"
    by (simp add: word_sless_alt)
  show ?thesis
    using check_deadline_checkpoint [OF h1' h2, of 1000 1 5] h1 h2
    by (simp add: Let_def sdiv64_def signed_divide_int_def word_sle_eq word_sless_alt)
qed

section \<open>The loop: invariants and termination\<close>

text \<open>A property that holds when the loop is entered and is kept by every turn that
  continues holds before the turn that leaves the loop.\<close>

lemma gather_loop_rule:
  assumes run: "gather_loop fn clk M b mbs mec st = Some st'"
    and init: "I st"
    and step: "\<And>s s'. I s \<Longrightarrow> loop_body fn clk M b mbs mec s = Next s' \<Longrightarrow> I s'"
    and final: "\<And>s s'. I s \<Longrightarrow> loop_body fn clk M b mbs mec s = Break s' \<Longrightarrow> Q s'"
  shows "Q st'"
proof -
  let ?P = "\<lambda>fn' clk' M' b' mbs' mec' s y.
     fn' = fn \<and> clk' = clk \<and> M' = M \<and> b' = b \<and> mbs' = mbs \<and> mec' = mec \<longrightarrow> I s \<longrightarrow> Q y"
  have "?P fn clk M b mbs mec st st'"
  proof (rule gather_loop.raw_induct [where P = ?P, OF _ run])
    fix gl fn' clk' M' b' mbs' mec' s y
    assume IH: "\<And>fn' clk' M' b' mbs' mec' s y.
        gl fn' clk' M' b' mbs' mec' s = Some y \<Longrightarrow> ?P fn' clk' M' b' mbs' mec' s y"
      and eq: "(case loop_body fn' clk' M' b' mbs' mec' s of
                  Break st' \<Rightarrow> Some st'
                | Next st' \<Rightarrow> gl fn' clk' M' b' mbs' mec' st') = Some y"
    show "?P fn' clk' M' b' mbs' mec' s y"
    proof (intro impI, elim conjE)
      assume eqs: "fn' = fn" "clk' = clk" "M' = M" "b' = b" "mbs' = mbs" "mec' = mec"
        and Is: "I s"
      show "Q y"
      proof (cases "loop_body fn clk M b mbs mec s")
        case (Break s')
        with eq eqs have "s' = y" by simp
        with final [OF Is Break] show ?thesis by simp
      next
        case (Next s')
        with eq eqs have "gl fn clk M b mbs mec s' = Some y" by simp
        from IH [OF this] step [OF Is Next] show ?thesis by simp
      qed
    qed
  qed
  with init show ?thesis by simp
qed

lemma elapsed_lower_bound:
  assumes "\<forall>j<n. clk (k + j) - clk k <s clk (k + Suc j) - clk k" and "j \<le> n"
  shows "int j \<le> sint (clk (k + j) - clk k)"
  using assms(2)
proof (induction j)
  case 0
  then show ?case by simp
next
  case (Suc j)
  then have "int j \<le> sint (clk (k + j) - clk k)" by simp
  moreover from Suc.prems assms(1)
  have "sint (clk (k + j) - clk k) < sint (clk (k + Suc j) - clk k)"
    by (simp add: word_sless_alt)
  ultimately show ?case by simp
qed

text \<open>After \<open>max_time_ns + 1\<close> batches across which the clock advances, the total time
  is past \<open>max_time_ns\<close>, and the phase deadline never lies beyond \<open>max_time_ns\<close>.\<close>

lemma gather_loop_terminates_aux:
  assumes clock: "\<forall>j<n. clk (k + j) - clk k <s clk (k + Suc j) - clk k"
    and n: "n = Suc (nat (sint M))" and M: "0 \<le>s M"
  shows "start st = clk k \<Longrightarrow> reads st = k + j \<Longrightarrow> j \<le> n \<Longrightarrow> to_time st \<le>s M \<Longrightarrow> d = n - j
    \<Longrightarrow> \<exists>st'. gather_loop fn clk M b mbs mec st = Some st'"
proof (induction d arbitrary: st j)
  case 0
  then have j: "j = n" by simp
  from elapsed_lower_bound [OF clock, of n] have "int n \<le> sint (clk (k + n) - clk k)" by simp
  with n M have "M <s clk (k + n) - clk k" by (simp add: word_sless_alt word_sle_eq)
  moreover with 0(4) have "to_time st <s clk (k + n) - clk k"
    by (simp add: word_sless_alt word_sle_eq)
  ultimately have "\<exists>st'. loop_body fn clk M b mbs mec st = Break st'"
    using 0(1,2) j by (simp add: loop_body_cases Let_def)
  then show ?case by (subst gather_loop.simps) auto
next
  case (Suc d)
  show ?case
  proof (cases "loop_body fn clk M b mbs mec st")
    case (Break st')
    then show ?thesis by (subst gather_loop.simps) simp
  next
    case (Next st')
    then have "start st' = clk k \<and> reads st' = k + Suc j \<and> to_time st' \<le>s M"
      using Suc.prems(1,2,4)
      by (auto simp: loop_body_cases Let_def measure_batch_eq split: if_splits)
    moreover from Suc.prems have "Suc j \<le> n" "d = n - Suc j" by simp_all
    ultimately have "\<exists>st''. gather_loop fn clk M b mbs mec st' = Some st''"
      using Suc.IH [of st' "Suc j"] by simp
    with Next show ?thesis by (subst gather_loop.simps) simp
  qed
qed

text \<open>A clock whose reads grow strictly and whose range over the \<open>n\<close> batches fits an
  \<^verbatim>\<open>int64_t\<close> advances in the sense above.\<close>

lemma sint_diff_no_overflow:
  fixes a b :: i64
  assumes "- (2 ^ 63) \<le> sint a - sint b" "sint a - sint b < 2 ^ 63"
  shows "sint (a - b) = sint a - sint b"
  using assms by (simp add: sint_word_ariths signed_take_bit_int_eq_self)

lemma increasing_clock_advances:
  assumes inc: "\<forall>j<n. sint (clk (k + j)) < sint (clk (k + Suc j))"
    and range: "sint (clk (k + n)) - sint (clk k) < 2 ^ 63"
  shows "clock_advances clk k n"
proof -
  have mono: "sint (clk (k + i)) \<le> sint (clk (k + j))" if "i \<le> j" "j \<le> n" for i j
    using that
  proof (induction j)
    case 0
    then show ?case by simp
  next
    case (Suc j)
    show ?case
    proof (cases "i = Suc j")
      case True
      then show ?thesis by simp
    next
      case False
      with Suc.prems have "i \<le> j" "j \<le> n" "j < n" by simp_all
      with Suc.IH inc show ?thesis by fastforce
    qed
  qed
  have el: "sint (clk (k + j) - clk k) = sint (clk (k + j)) - sint (clk k)" if "j \<le> n" for j
  proof (rule sint_diff_no_overflow)
    from mono [of 0 j] that have "sint (clk k) \<le> sint (clk (k + j))" by simp
    then show "- (2 ^ 63) \<le> sint (clk (k + j)) - sint (clk k)" by simp
    from mono [of j n] that range show "sint (clk (k + j)) - sint (clk k) < 2 ^ 63" by simp
  qed
  show ?thesis
    unfolding clock_advances_def word_sless_alt
  proof (intro allI impI)
    fix j assume "j < n"
    with el [of j] el [of "Suc j"] inc
    show "sint (clk (k + j) - clk k) < sint (clk (k + Suc j) - clk k)" by simp
  qed
qed

lemma init_state_to_time:
  "0 \<le>s M \<Longrightarrow> to_time (init_state clk k c M W mbs) \<le>s M"
  by (auto simp: init_state_def Let_def word_sle_eq word_sless_alt)

lemma gather_run_terminates:
  assumes "0 <s mec" "0 <s mbs" "0 \<le>s M" "clock_advances clk k (Suc (nat (sint M)))"
  shows "\<exists>st'. gather_run fn clk k c M W b mbs mec = Some (Inr st')"
proof -
  let ?b = "if b \<le>s 0 then 1 else b"
  let ?st = "init_state clk k c M W mbs"
  have "\<exists>st'. gather_loop fn clk M ?b mbs mec ?st = Some st'"
  proof (rule gather_loop_terminates_aux [where k = k and j = 1 and n = "Suc (nat (sint M))"])
    show "\<forall>j<Suc (nat (sint M)). clk (k + j) - clk k <s clk (k + Suc j) - clk k"
      using assms(4) by (simp add: clock_advances_def)
    show "to_time ?st \<le>s M" using assms(3) by (rule init_state_to_time)
  qed (use assms(3) in \<open>simp_all add: init_state_def Let_def\<close>)
  with assms(1-3) show ?thesis by (auto simp: gather_run_def Let_def)
qed

text \<open>The log of whole batches grows by one whole batch at a time.\<close>

lemma batches_snoc:
  "batches c r (ns @ [n]) =
     batches c r ns @
     map Call [c + sum_list ns..<c + sum_list ns + n] @
     [Clock (r + length ns), Deadline_check]"
  by (induction ns arbitrary: c r) (simp_all add: add.assoc)

lemma gather_run_batches:
  assumes pre: "0 <s mbs"
    and run: "gather_run fn clk k c M W b mbs mec = Some (Inr st')"
  shows "\<exists>ns. log st' = Clock k # batches c (Suc k) ns \<and> ns \<noteq> [] \<and>
     hd ns = nat (sint mbs) \<and> (\<forall>n \<in> set ns. nat (sint mbs) \<le> n) \<and>
     last ns = nat (sint (batch_size (stats st'))) \<and>
     calls st' = c + sum_list ns \<and> reads st' = Suc k + length ns"
proof -
  let ?b = "if b \<le>s 0 then 1 else b"
  let ?m = "nat (sint mbs)"
  let ?J = "\<lambda>s ns. log s = Clock k # batches c (Suc k) ns \<and>
     calls s = c + sum_list ns \<and> reads s = Suc k + length ns \<and>
     (\<forall>n \<in> set ns. ?m \<le> n) \<and> (ns \<noteq> [] \<longrightarrow> hd ns = ?m)"
  let ?I = "\<lambda>s. mbs \<le>s batch_size (stats s) \<and>
     (\<exists>ns. ?J s ns \<and> (ns = [] \<longrightarrow> batch_size (stats s) = mbs))"
  have batch: "?J ((fst (measure_batch fn clk s))
        \<lparr>log := log (fst (measure_batch fn clk s)) @ [Deadline_check]\<rparr>)
      (ns @ [nat (sint (batch_size (stats s)))])"
    if "?J s ns" and "mbs \<le>s batch_size (stats s)"
      and "ns = [] \<longrightarrow> batch_size (stats s) = mbs" for s ns
  proof -
    from that(2) have "?m \<le> nat (sint (batch_size (stats s)))"
      by (auto simp: word_sle_eq intro: nat_mono)
    with that(1,3) show ?thesis
      by (auto simp: measure_batch_eq batches_snoc hd_append)
  qed
  from run have loop: "gather_loop fn clk M ?b mbs mec (init_state clk k c M W mbs) = Some st'"
    by (auto simp: gather_run_def Let_def split: if_splits)
  show ?thesis
  proof (rule gather_loop_rule [OF loop, where I = ?I])
    show "?I (init_state clk k c M W mbs)"
      by (simp add: init_state_def Let_def)
  next
    fix s s' assume I: "?I s" and nx: "loop_body fn clk M ?b mbs mec s = Next s'"
    from I obtain ns where J: "?J s ns" and e: "ns = [] \<longrightarrow> batch_size (stats s) = mbs"
      and ge: "mbs \<le>s batch_size (stats s)" by blast
    let ?s1 = "(fst (measure_batch fn clk s))
        \<lparr>log := log (fst (measure_batch fn clk s)) @ [Deadline_check]\<rparr>"
    let ?ns = "ns @ [nat (sint (batch_size (stats s)))]"
    from batch [OF J ge e] have J1: "?J ?s1 ?ns" .
    from nx have "log s' = log ?s1 \<and> calls s' = calls ?s1 \<and> reads s' = reads ?s1"
      by (auto simp: loop_body_cases Let_def split: if_splits)
    with J1 have "?J s' ?ns" by simp
    moreover from nx ge have "mbs \<le>s batch_size (stats s')"
      by (auto simp: loop_body_cases Let_def measure_batch_eq resize_batch_size_ge
          split: if_splits)
    ultimately show "?I s'" by blast
  next
    fix s s' assume I: "?I s" and br: "loop_body fn clk M ?b mbs mec s = Break s'"
    from I obtain ns where J: "?J s ns" and e: "ns = [] \<longrightarrow> batch_size (stats s) = mbs"
      and ge: "mbs \<le>s batch_size (stats s)" by blast
    let ?ns = "ns @ [nat (sint (batch_size (stats s)))]"
    from br have s': "s' = (fst (measure_batch fn clk s))
        \<lparr>log := log (fst (measure_batch fn clk s)) @ [Deadline_check]\<rparr>"
      by (auto simp: loop_body_cases Let_def split: if_splits)
    with batch [OF J ge e] have J1: "?J s' ?ns" by simp
    have "batch_size (stats s') = batch_size (stats s)"
      by (simp add: s' measure_batch_eq)
    then have "last ?ns = nat (sint (batch_size (stats s')))" by simp
    with J1 show "\<exists>ns. log s' = Clock k # batches c (Suc k) ns \<and> ns \<noteq> [] \<and>
       hd ns = nat (sint mbs) \<and> (\<forall>n \<in> set ns. nat (sint mbs) \<le> n) \<and>
       last ns = nat (sint (batch_size (stats s'))) \<and>
       calls s' = c + sum_list ns \<and> reads s' = Suc k + length ns"
      by (intro exI [of _ ?ns]) simp
  qed
qed

section \<open>A measured function that always rejects\<close>

lemma resize_idle:
  "idle mbs s \<Longrightarrow> idle mbs (resize M b mbs mec s tt)"
  by (simp add: idle_def resize_def Let_def sdiv64_def word_sle_eq word_sless_alt)

lemma measure_batch_rejected:
  assumes "\<forall>i. \<not> fn i" "0 <s batch_size (stats st)"
  shows "stats (fst (measure_batch fn clk st)) = stats st"
proof -
  from assms(2) have "0 < nat (sint (batch_size (stats st)))" by (simp add: word_sless_alt)
  with assms(1) have "\<not> (\<forall>i < nat (sint (batch_size (stats st))). fn (calls st + i))"
    by (auto intro: exI [of _ 0])
  then show ?thesis by (auto simp: measure_batch_eq)
qed

lemma gather_loop_all_rejected:
  assumes rej: "\<forall>i. \<not> fn i" and pre: "0 <s mbs"
    and loop: "gather_loop fn clk M b mbs mec st = Some st'" and init: "idle mbs (stats st)"
  shows "idle mbs (stats st')"
proof (rule gather_loop_rule [OF loop, where I = "\<lambda>s. idle mbs (stats s)"])
  show "idle mbs (stats st)" by (rule init)
next
  fix s s' :: loop_state assume I: "idle mbs (stats s)"
  with pre have pos: "0 <s batch_size (stats s)"
    by (simp add: idle_def word_sle_eq word_sless_alt)
  note keep = measure_batch_rejected [OF rej pos, of clk]
  { assume "loop_body fn clk M b mbs mec s = Next s'"
    with I keep show "idle mbs (stats s')"
      by (auto simp: loop_body_cases Let_def resize_idle split: if_splits) }
  { assume "loop_body fn clk M b mbs mec s = Break s'"
    with I keep show "idle mbs (stats s')"
      by (auto simp: loop_body_cases Let_def split: if_splits) }
qed


lemma process_stats_idle:
  assumes "idle mbs s" "0 \<le>s batch_size s * m"
  shows "process_stats R s m = Inr \<lparr>mean_ms = 0, deviation_ms = 0, max_ms = 0, min_ms = 0,
     result_batch_size = batch_size s * m, iters = 0\<rparr>"
  using assms
  by (simp add: idle_def process_stats_def Let_def word_sle_eq word_sless_alt)

section \<open>Runs of the sampler, traced\<close>

text \<open>Three batches of 1 ns each with \<open>max_time_ns = 2\<close> and no warm-up: the third batch
  ends past the deadline. First with every call rejected, then with every call kept.\<close>

lemma rejected_run:
  "gather_run always_reject (clock_of_list [0, 1, 2, 3]) 0 0 2 0 1 1 5 =
   Some (Inr \<lparr>stats = \<lparr>batch_count = 0, batch_size = 1, time_sum = 0, squared_time_sum = 0,
                  min_batch_time = SENTINEL, max_batch_time = 0, mean_time_estimate = 0\<rparr>,
         to_time = 2, start = 0, from_ns = 3, reads = 4, calls = 3,
         log = [Clock 0, Call 0, Clock 1, Deadline_check, Call 1, Clock 2, Deadline_check,
                Call 2, Clock 3, Deadline_check]\<rparr>)"
  apply (simp add: gather_run_def word_sle_eq word_sless_alt init_state_def)
  apply (subst gather_loop.simps)
  apply (simp add: loop_body_cases measure_batch_def always_keep_def always_reject_def
      word_sle_eq word_sless_alt)
  apply (subst gather_loop.simps)
  apply (simp add: loop_body_cases measure_batch_def always_keep_def always_reject_def
      word_sle_eq word_sless_alt numeral_2_eq_2)
  apply (subst gather_loop.simps)
  apply (simp add: loop_body_cases measure_batch_def always_keep_def always_reject_def
      word_sle_eq word_sless_alt
      numeral_3_eq_3 numeral_2_eq_2)
  done

lemma kept_run:
  "gather_run always_keep (clock_of_list [0, 1, 2, 3]) 0 0 2 0 1 1 5 =
   Some (Inr \<lparr>stats = \<lparr>batch_count = 3, batch_size = 1, time_sum = 3, squared_time_sum = 3,
                  min_batch_time = 1, max_batch_time = 1, mean_time_estimate = 0\<rparr>,
         to_time = 2, start = 0, from_ns = 3, reads = 4, calls = 3,
         log = [Clock 0, Call 0, Clock 1, Deadline_check, Call 1, Clock 2, Deadline_check,
                Call 2, Clock 3, Deadline_check]\<rparr>)"
  apply (simp add: gather_run_def word_sle_eq word_sless_alt init_state_def)
  apply (subst gather_loop.simps)
  apply (simp add: loop_body_cases measure_batch_def always_keep_def always_reject_def
      accumulate_def SENTINEL_eq word_sle_eq
      word_sless_alt)
  apply (subst gather_loop.simps)
  apply (simp add: loop_body_cases measure_batch_def always_keep_def always_reject_def
      accumulate_def word_sle_eq word_sless_alt
      numeral_2_eq_2)
  apply (subst gather_loop.simps)
  apply (simp add: loop_body_cases measure_batch_def always_keep_def always_reject_def
      accumulate_def word_sle_eq word_sless_alt
      numeral_3_eq_3 numeral_2_eq_2)
  done

lemma clock_advances_example:
  "clock_advances (clock_of_list [0, 1, 2, 3]) 0 (Suc (nat (sint (2::i64))))"
  by (simp add: clock_advances_def All_less_Suc numeral_2_eq_2 word_sless_alt)

text \<open>A run with a warm-up of 1 ns, \<open>max_time_ns = 10\<close> and a noise floor of 4 ns. The
  first batch, of one call, takes 2 ns and ends the warm-up; the checkpoint sets the
  estimate to 2 ns and the batch size to \<open>1 * 8 / (2 * 2) = 2\<close>. The two batches that
  follow, of two calls each, take 4 and 5 ns; the second of them ends at 11 ns, past
  the deadline.\<close>

lemma resized_run:
  "gather_run always_keep (clock_of_list [0, 2, 6, 11, 12, 13, 14, 15, 16, 17, 18, 19])
     0 0 10 1 4 1 1 =
   Some (Inr \<lparr>stats = \<lparr>batch_count = 2, batch_size = 2, time_sum = 5, squared_time_sum = 13,
                  min_batch_time = 2, max_batch_time = 3, mean_time_estimate = 2\<rparr>,
         to_time = 10, start = 0, from_ns = 11, reads = 4, calls = 5,
         log = [Clock 0, Call 0, Clock 1, Deadline_check, Call 1, Call 2, Clock 2,
                Deadline_check, Call 3, Call 4, Clock 3, Deadline_check]\<rparr>)"
  apply (simp add: gather_run_def word_sle_eq word_sless_alt init_state_def)
  apply (subst gather_loop.simps)
  apply (simp add: loop_body_cases measure_batch_eq always_keep_def
      accumulate_def SENTINEL_eq word_sle_eq word_sless_alt resize_def sdiv64_def
      signed_divide_int_def)
  apply (subst gather_loop.simps)
  apply (simp add: loop_body_cases measure_batch_eq always_keep_def
      accumulate_def SENTINEL_eq word_sle_eq word_sless_alt numeral_2_eq_2 upt_conv_Cons)
  apply (subst gather_loop.simps)
  apply (simp add: loop_body_cases measure_batch_eq always_keep_def
      accumulate_def SENTINEL_eq word_sle_eq word_sless_alt numeral_3_eq_3 numeral_2_eq_2
      upt_conv_Cons)
  done

lemma resized_clock_advances:
  "clock_advances (clock_of_list [0, 2, 6, 11, 12, 13, 14, 15, 16, 17, 18, 19]) 0
     (Suc (nat (sint (10::i64))))"
  by (simp add: clock_advances_def All_less_Suc eval_nat_numeral word_sless_alt)

section \<open>C3: rejection\<close>

text \<open>
  C3: let the measured function reject every call and let the inputs meet the
  preconditions. Whenever \<^verbatim>\<open>gather_bench_stats\<close> returns, the statistics have
  \<open>batch_count = 0\<close>, and \<^verbatim>\<open>process_stats\<close> returns on them the result whose mean,
  deviation, minimum, maximum and \<open>iters\<close> are all 0, under every rounding: no assertion
  fails and no division has a zero divisor. This holds for the multiplier 1 and for every multiplier that
  leaves the effective batch size non-negative. And \<^verbatim>\<open>gather_bench_stats\<close> does return
  when the clock advances across each of the first \<open>max_time_ns + 1\<close> batches.
\<close>

theorem gather_all_rejected:
  assumes "\<forall>i. \<not> measured_fn i"
    and "0 <s min_end_checks" and "0 <s min_batch_size" and "0 \<le>s max_time_ns"
  shows "(\<forall>s. gather_bench_stats measured_fn clock_ns k c max_time_ns warm_up_ns batch_time_ns
              min_batch_size min_end_checks = Some (Inr s) \<longrightarrow>
            batch_count s = 0 \<and>
            process_stats R s 1 = Inr \<lparr>mean_ms = 0, deviation_ms = 0, max_ms = 0, min_ms = 0,
                                     result_batch_size = batch_size s, iters = 0\<rparr> \<and>
            (\<forall>m. 0 \<le>s batch_size s * m \<longrightarrow>
               process_stats R s m = Inr \<lparr>mean_ms = 0, deviation_ms = 0, max_ms = 0, min_ms = 0,
                                        result_batch_size = batch_size s * m, iters = 0\<rparr>))
     \<and> (clock_advances clock_ns k (Suc (nat (sint max_time_ns))) \<longrightarrow>
          (\<exists>s. gather_bench_stats measured_fn clock_ns k c max_time_ns warm_up_ns batch_time_ns
              min_batch_size min_end_checks = Some (Inr s)))"
proof (intro conjI allI impI)
  fix s
  assume run: "gather_bench_stats measured_fn clock_ns k c max_time_ns warm_up_ns batch_time_ns
              min_batch_size min_end_checks = Some (Inr s)"
  let ?b = "if batch_time_ns \<le>s 0 then 1 else batch_time_ns"
  let ?st = "init_state clock_ns k c max_time_ns warm_up_ns min_batch_size"
  from run assms(2-4) obtain st' where
    loop: "gather_loop measured_fn clock_ns max_time_ns ?b min_batch_size min_end_checks ?st =
      Some st'"
    and s: "s = stats st'"
    by (auto simp: gather_bench_stats_def gather_run_def Let_def split: if_splits)
  have "idle min_batch_size (stats ?st)"
    by (simp add: init_state_def idle_def Let_def)
  from gather_loop_all_rejected [OF assms(1,3) loop this] s
  have idle: "idle min_batch_size s" by simp
  then show "batch_count s = 0" by (simp add: idle_def)
  from idle assms(3) have "0 \<le>s batch_size s * 1"
    by (simp add: idle_def word_sle_eq word_sless_alt)
  from process_stats_idle [OF idle this]
  show "process_stats R s 1 = Inr \<lparr>mean_ms = 0, deviation_ms = 0, max_ms = 0, min_ms = 0,
                                     result_batch_size = batch_size s, iters = 0\<rparr>" by simp
  fix m assume "0 \<le>s batch_size s * m"
  with idle show "process_stats R s m = Inr \<lparr>mean_ms = 0, deviation_ms = 0, max_ms = 0,
      min_ms = 0, result_batch_size = batch_size s * m, iters = 0\<rparr>"
    by (rule process_stats_idle)
next
  assume "clock_advances clock_ns k (Suc (nat (sint max_time_ns)))"
  from gather_run_terminates [OF assms(2-4) this]
  obtain st' where "gather_run measured_fn clock_ns k c max_time_ns warm_up_ns batch_time_ns
              min_batch_size min_end_checks = Some (Inr st')" by blast
  then show "\<exists>s. gather_bench_stats measured_fn clock_ns k c max_time_ns warm_up_ns
      batch_time_ns min_batch_size min_end_checks = Some (Inr s)"
    by (simp add: gather_bench_stats_def)
qed

theorem gather_all_rejected_witness:
  "(\<forall>i. \<not> always_reject i) \<and> (0::i64) <s 5 \<and> (0::i64) <s 1 \<and> (0::i64) \<le>s 2 \<and>
   clock_advances (clock_of_list [0, 1, 2, 3]) 0 (Suc (nat (sint (2::i64)))) \<and>
   gather_bench_stats always_reject (clock_of_list [0, 1, 2, 3]) 0 0 2 0 1 1 5 =
     Some (Inr \<lparr>batch_count = 0, batch_size = 1, time_sum = 0, squared_time_sum = 0,
                min_batch_time = SENTINEL, max_batch_time = 0, mean_time_estimate = 0\<rparr>) \<and>
   process_stats exact \<lparr>batch_count = 0, batch_size = 1, time_sum = 0, squared_time_sum = 0,
                min_batch_time = SENTINEL, max_batch_time = 0, mean_time_estimate = 0\<rparr> 1 =
     Inr \<lparr>mean_ms = 0, deviation_ms = 0, max_ms = 0, min_ms = 0, result_batch_size = 1,
          iters = 0\<rparr>"
proof -
  have h1: "\<forall>i. \<not> always_reject i"
    by (simp add: always_reject_def)
  have h: "(0::i64) <s 5" "(0::i64) <s 1" "(0::i64) \<le>s 2"
    by (simp_all add: word_sless_alt word_sle_eq)
  have run: "gather_bench_stats always_reject (clock_of_list [0, 1, 2, 3]) 0 0 2 0 1 1 5 =
     Some (Inr \<lparr>batch_count = 0, batch_size = 1, time_sum = 0, squared_time_sum = 0,
                min_batch_time = SENTINEL, max_batch_time = 0, mean_time_estimate = 0\<rparr>)"
    by (simp add: gather_bench_stats_def rejected_run)
  from gather_all_rejected [OF h1 h, of "clock_of_list [0, 1, 2, 3]" 0 0 0 1 exact] run
  have "process_stats exact \<lparr>batch_count = 0, batch_size = 1, time_sum = 0, squared_time_sum = 0,
                min_batch_time = SENTINEL, max_batch_time = 0, mean_time_estimate = 0\<rparr> 1 =
     Inr \<lparr>mean_ms = 0, deviation_ms = 0, max_ms = 0, min_ms = 0, result_batch_size = 1,
          iters = 0\<rparr>"
    by simp
  with h1 h clock_advances_example run show ?thesis
    by (intro conjI)
qed

section \<open>C8: whole batches, and termination\<close>

text \<open>
  C8: let the inputs meet the preconditions. The log of every run of
  \<^verbatim>\<open>gather_bench_stats\<close> that returns is the first clock read followed by whole batches
  and nothing else; there is at least one batch. Each batch is its calls of the measured
  function, one after the other with no clock read and no deadline check between them,
  followed by one clock read and one deadline check. The first batch has
  \<open>min_batch_size\<close> calls, every batch has at least as many, and the last one has
  \<open>batch_size\<close> calls, for the batch size that is returned. So at least one complete
  batch is run before the first deadline check, whatever the clock shows and whatever
  \<open>max_time_ns\<close> is (0 included), and the run returns right after the deadline check
  that follows a whole batch. And the run does return when the clock advances across
  each of the first \<open>max_time_ns + 1\<close> batches.
\<close>

theorem gather_run_whole_batches:
  assumes "0 <s min_end_checks" and "0 <s min_batch_size" and "0 \<le>s max_time_ns"
  shows "(\<forall>st'. gather_run measured_fn clock_ns k c max_time_ns warm_up_ns batch_time_ns
              min_batch_size min_end_checks = Some (Inr st') \<longrightarrow>
            (\<exists>ns. log st' = Clock k # batches c (Suc k) ns \<and> ns \<noteq> [] \<and>
               hd ns = nat (sint min_batch_size) \<and>
               (\<forall>n \<in> set ns. nat (sint min_batch_size) \<le> n) \<and>
               last ns = nat (sint (batch_size (stats st'))) \<and>
               calls st' = c + sum_list ns \<and> reads st' = Suc k + length ns))
     \<and> (clock_advances clock_ns k (Suc (nat (sint max_time_ns))) \<longrightarrow>
          (\<exists>st'. gather_run measured_fn clock_ns k c max_time_ns warm_up_ns batch_time_ns
              min_batch_size min_end_checks = Some (Inr st')))"
  using gather_run_batches [OF assms(2)] gather_run_terminates [OF assms]
  by blast

theorem gather_run_whole_batches_witness:
  "(0::i64) <s 1 \<and> (0::i64) \<le>s 10 \<and>
   clock_advances (clock_of_list [0, 2, 6, 11, 12, 13, 14, 15, 16, 17, 18, 19]) 0
     (Suc (nat (sint (10::i64)))) \<and>
   gather_run always_keep (clock_of_list [0, 2, 6, 11, 12, 13, 14, 15, 16, 17, 18, 19])
     0 0 10 1 4 1 1 =
   Some (Inr \<lparr>stats = \<lparr>batch_count = 2, batch_size = 2, time_sum = 5, squared_time_sum = 13,
                  min_batch_time = 2, max_batch_time = 3, mean_time_estimate = 2\<rparr>,
         to_time = 10, start = 0, from_ns = 11, reads = 4, calls = 5,
         log = [Clock 0, Call 0, Clock 1, Deadline_check, Call 1, Call 2, Clock 2,
                Deadline_check, Call 3, Call 4, Clock 3, Deadline_check]\<rparr>) \<and>
   (\<exists>ns. [Clock 0, Call 0, Clock 1, Deadline_check, Call 1, Call 2, Clock 2,
           Deadline_check, Call 3, Call 4, Clock 3, Deadline_check] =
            Clock 0 # batches 0 (Suc 0) ns \<and> ns \<noteq> [] \<and>
          hd ns = nat (sint (1::i64)) \<and> (\<forall>n \<in> set ns. nat (sint (1::i64)) \<le> n) \<and>
          last ns = nat (sint (2::i64)) \<and> (5::nat) = 0 + sum_list ns \<and>
          (4::nat) = Suc 0 + length ns) \<and>
   batches 0 (Suc 0) [1, 2, 2] =
     [Call 0, Clock 1, Deadline_check, Call 1, Call 2, Clock 2, Deadline_check,
      Call 3, Call 4, Clock 3, Deadline_check]"
proof -
  have h: "(0::i64) <s 1" "(0::i64) <s 1" "(0::i64) \<le>s 10"
    by (simp_all add: word_sless_alt word_sle_eq)
  have b: "batches 0 (Suc 0) [1, 2, 2] =
     [Call 0, Clock 1, Deadline_check, Call 1, Call 2, Clock 2, Deadline_check,
      Call 3, Call 4, Clock 3, Deadline_check]"
    by (simp add: upt_conv_Cons numeral_2_eq_2 numeral_3_eq_3 eval_nat_numeral)
  from gather_run_whole_batches [OF h, of always_keep
      "clock_of_list [0, 2, 6, 11, 12, 13, 14, 15, 16, 17, 18, 19]" 0 0 1 4]
    resized_run h resized_clock_advances b
  show ?thesis by simp
qed

section \<open>C6: the invariant of the accumulators\<close>

text \<open>Read as integers, the bounds \<open>min * count \<le> sum \<le> max * count\<close> are kept by every
  batch that enters the accumulators, as long as the new sum and the new count fit an
  \<^verbatim>\<open>int64_t\<close>.\<close>

lemma accumulate_invariant:
  fixes s :: Bench_Stats and t :: i64
  defines "d \<equiv> t - mean_time_estimate s"
  assumes lo: "sint (min_batch_time s) * sint (batch_count s) \<le> sint (time_sum s)"
    and hi: "sint (time_sum s) \<le> sint (max_batch_time s) * sint (batch_count s)"
    and cnt: "0 \<le> sint (batch_count s)"
    and sum_fits: "sint (time_sum s + d) = sint (time_sum s) + sint d"
    and cnt_fits: "sint (batch_count s + 1) = sint (batch_count s) + 1"
  shows "sint (min_batch_time (accumulate s t)) * sint (batch_count (accumulate s t))
           \<le> sint (time_sum (accumulate s t))
       \<and> sint (time_sum (accumulate s t))
           \<le> sint (max_batch_time (accumulate s t)) * sint (batch_count (accumulate s t))
       \<and> 0 \<le> sint (batch_count (accumulate s t))"
proof -
  let ?c = "sint (batch_count s)"
  let ?mn = "min (sint (min_batch_time s)) (sint d)"
  let ?mx = "max (sint (max_batch_time s)) (sint d)"
  have acc: "sint (time_sum (accumulate s t)) = sint (time_sum s) + sint d"
    "sint (batch_count (accumulate s t)) = ?c + 1"
    "sint (min_batch_time (accumulate s t)) = ?mn"
    "sint (max_batch_time (accumulate s t)) = ?mx"
    using sum_fits cnt_fits
    by (auto simp: accumulate_def Let_def d_def word_sless_alt)
  have "?mn * ?c \<le> sint (min_batch_time s) * ?c"
    using cnt by (intro mult_right_mono) simp_all
  then have 1: "?mn * (?c + 1) \<le> sint (time_sum s) + sint d"
    using lo by (simp add: algebra_simps)
  have "sint (max_batch_time s) * ?c \<le> ?mx * ?c"
    using cnt by (intro mult_right_mono) simp_all
  then have 2: "sint (time_sum s) + sint d \<le> ?mx * (?c + 1)"
    using hi by (simp add: algebra_simps)
  from 1 2 cnt show ?thesis by (simp add: acc)
qed

text \<open>A short run on which they are not kept by the machine arithmetic. Every call is
  kept; \<open>max_time_ns = 3\<close>, no warm-up; the clock shows 0, 1, 2, 3 and then
  \<open>3 + 2\<^sup>6\<^sup>2\<close>. After four batches \<open>batch_count = 4\<close> and \<open>max_batch_time = 2\<^sup>6\<^sup>2\<close>: their
  product \<open>2\<^sup>6\<^sup>4\<close> wraps around to 0, below \<open>time_sum = 3 + 2\<^sup>6\<^sup>2\<close>.\<close>

lemma short_overflow_run:
  "gather_bench_stats always_keep (clock_of_list [0, 1, 2, 3, 4611686018427387907])
     0 0 3 0 1 1 5 =
   Some (Inr \<lparr>batch_count = 4, batch_size = 1, time_sum = 4611686018427387907,
              squared_time_sum = 3, min_batch_time = 1, max_batch_time = 4611686018427387904,
              mean_time_estimate = 0\<rparr>)"
  apply (simp add: gather_bench_stats_def gather_run_def word_sle_eq word_sless_alt
      init_state_def)
  apply (subst gather_loop.simps)
  apply (simp add: loop_body_cases measure_batch_def always_keep_def always_reject_def
      accumulate_def SENTINEL_eq word_sle_eq
      word_sless_alt)
  apply (subst gather_loop.simps)
  apply (simp add: loop_body_cases measure_batch_def always_keep_def always_reject_def
      accumulate_def word_sle_eq word_sless_alt)
  apply (subst gather_loop.simps)
  apply (simp add: loop_body_cases measure_batch_def always_keep_def always_reject_def
      accumulate_def word_sle_eq word_sless_alt)
  apply (subst gather_loop.simps)
  apply (simp add: loop_body_cases measure_batch_def always_keep_def always_reject_def
      accumulate_def word_sle_eq word_sless_alt)
  done

lemma short_overflow_run_assertion:
  "process_stats R \<lparr>batch_count = 4, batch_size = 1, time_sum = 4611686018427387907,
              squared_time_sum = 3, min_batch_time = 1, max_batch_time = 4611686018427387904,
              mean_time_estimate = 0\<rparr> 1 = Inl Assertion_failed"
  by (simp add: process_stats_def word_sle_eq)

text \<open>A long run: \<open>K\<close> batches of \<open>d\<close> ns each, then one batch of \<open>D\<close> ns.\<close>

lemma sint_add_no_overflow:
  fixes a b :: i64
  assumes "- (2 ^ 63) \<le> sint a + sint b" "sint a + sint b < 2 ^ 63"
  shows "sint (a + b) = sint a + sint b"
  using assms by (simp add: sint_word_ariths signed_take_bit_int_eq_self)

lemma sint_of_nat_mult:
  fixes d :: i64
  assumes "0 \<le> sint d" "int j * sint d < 2 ^ 63"
  shows "sint (of_nat j * d) = int j * sint d"
proof -
  have "sint (of_nat j * d :: i64) = sint (word_of_int (int j * sint d) :: i64)"
    by simp
  also have "\<dots> = signed_take_bit 63 (int j * sint d)"
    by (simp only: sint_sbintrunc') simp
  also have "\<dots> = int j * sint d"
  proof (rule signed_take_bit_int_eq_self)
    from assms(1) have "0 \<le> int j * sint d" by simp
    then show "- (2 ^ 63) \<le> int j * sint d" by simp
    from assms(2) show "int j * sint d < 2 ^ 63" .
  qed
  finally show ?thesis .
qed


lemma steady_log:
  "batches c r (replicate (Suc j) (Suc 0)) =
     batches c r (replicate j (Suc 0)) @ [Call (c + j), Clock (r + j), Deadline_check]"
proof (induction j arbitrary: c r)
  case 0
  show ?case by simp
next
  case (Suc j)
  from Suc [of "Suc c" "Suc r"] show ?case by simp
qed

lemma steady_step:
  assumes d: "0 < sint d" "sint d < 2 ^ 62" and fits: "int K * sint d < 2 ^ 63" and j: "j < K"
  shows "loop_body always_keep (steady_then_stall K d D) (of_nat K * d) 1 1 5 (steady_state K d j)
     = Next (steady_state K d (Suc j))"
proof -
  have le: "int (Suc j) * sint d \<le> int K * sint d"
    using j d by (intro mult_right_mono) simp_all
  with fits have "int (Suc j) * sint d < 2 ^ 63" by simp
  with d have s1: "sint (of_nat (Suc j) * d) = int (Suc j) * sint d"
    by (intro sint_of_nat_mult) simp_all
  from d fits have sK: "sint (of_nat K * d) = int K * sint d"
    by (intro sint_of_nat_mult) simp_all
  have notlate: "\<not> of_nat K * d <s of_nat (Suc j) * d"
    using le by (simp only: word_sless_alt s1 sK)
  have dd: "(1 + of_nat j) * d - of_nat j * d = d" by (simp add: algebra_simps)
  have "d <s SENTINEL" "0 <s d" using d by (simp_all add: word_sless_alt SENTINEL_eq)
  with notlate j show ?thesis
    by (simp add: loop_body_cases measure_batch_eq always_keep_def
      steady_state_def steady_then_stall_def steady_log
        accumulate_def Let_def dd algebra_simps del: replicate.simps)
qed

lemma steady_loop:
  assumes d: "0 < sint d" "sint d < 2 ^ 62" and fits: "int K * sint d < 2 ^ 63" and j: "j \<le> K"
  shows "gather_loop always_keep (steady_then_stall K d D) (of_nat K * d) 1 1 5 (steady_state K d 0)
     = gather_loop always_keep (steady_then_stall K d D) (of_nat K * d) 1 1 5 (steady_state K d j)"
  using j
proof (induction j)
  case 0
  show ?case by simp
next
  case (Suc j)
  then have "j < K" by simp
  from steady_step [OF d fits this, of D]
  have "gather_loop always_keep (steady_then_stall K d D) (of_nat K * d) 1 1 5 (steady_state K d j)
     = gather_loop always_keep (steady_then_stall K d D) (of_nat K * d) 1 1 5
         (steady_state K d (Suc j))"
    by (subst gather_loop.simps) simp
  with Suc show ?case by simp
qed

lemma steady_last:
  assumes d: "0 < sint d" "sint d < 2 ^ 62" and D: "sint d < sint D"
    and fits: "int K * sint d + sint D < 2 ^ 63" and K: "0 < K"
  shows "loop_body always_keep (steady_then_stall K d D) (of_nat K * d) 1 1 5 (steady_state K d K)
     = Break \<lparr>stats = \<lparr>batch_count = of_nat K + 1, batch_size = 1,
                        time_sum = of_nat K * d + D,
                        squared_time_sum = of_nat K * (d * d) + D * D,
                        min_batch_time = d, max_batch_time = D, mean_time_estimate = 0\<rparr>,
               to_time = of_nat K * d, start = 0, from_ns = of_nat K * d + D,
               reads = Suc (Suc K), calls = Suc K,
               log = Clock 0 # batches 0 1 (replicate (Suc K) 1)\<rparr>"
proof -
  from d D fits have fK: "int K * sint d < 2 ^ 63" by simp
  with d have sK: "sint (of_nat K * d) = int K * sint d"
    by (intro sint_of_nat_mult) simp_all
  have "sint (of_nat K * d + D) = sint (of_nat K * d) + sint D"
  proof (rule sint_add_no_overflow)
    from d D have "0 \<le> int K * sint d + sint D" by simp
    then show "- (2 ^ 63) \<le> sint (of_nat K * d) + sint D" by (simp add: sK)
    from fits show "sint (of_nat K * d) + sint D < 2 ^ 63" by (simp add: sK)
  qed
  with d D have late: "of_nat K * d <s of_nat K * d + D"
    by (simp add: word_sless_alt)
  have "\<not> D <s d" "d <s D" using D by (simp_all add: word_sless_alt)
  with late K show ?thesis
    by (simp add: loop_body_cases measure_batch_eq always_keep_def
      steady_state_def steady_then_stall_def steady_log
        accumulate_def Let_def del: replicate.simps)
qed

lemma stalled_run:
  "gather_bench_stats always_keep (steady_then_stall 1073741824 16 8589934592) 0 0
     17179869184 0 1 1 5 =
   Some (Inr \<lparr>batch_count = 1073741825, batch_size = 1, time_sum = 25769803776,
              squared_time_sum = 274877906944, min_batch_time = 16,
              max_batch_time = 8589934592, mean_time_estimate = 0\<rparr>)"
proof -
  let ?K = "1073741824 :: nat" and ?d = "16 :: i64" and ?D = "8589934592 :: i64"
  let ?clk = "steady_then_stall ?K ?d ?D"
  have init: "init_state ?clk 0 0 17179869184 0 1 = steady_state ?K ?d 0"
    by (simp add: init_state_def steady_state_def steady_then_stall_def word_sle_eq
        word_sless_alt)
  have d: "0 < sint ?d" "sint ?d < 2 ^ 62" "sint ?d < sint ?D" by simp_all
  have fits: "int ?K * sint ?d + sint ?D < 2 ^ 63" by simp
  then have fits': "int ?K * sint ?d < 2 ^ 63" by simp
  have "gather_loop always_keep ?clk (of_nat ?K * ?d) 1 1 5 (steady_state ?K ?d 0)
      = gather_loop always_keep ?clk (of_nat ?K * ?d) 1 1 5 (steady_state ?K ?d ?K)"
    by (rule steady_loop [OF d(1,2) fits']) simp
  also have "\<dots> = Some \<lparr>stats = \<lparr>batch_count = of_nat ?K + 1, batch_size = 1,
                        time_sum = of_nat ?K * ?d + ?D,
                        squared_time_sum = of_nat ?K * (?d * ?d) + ?D * ?D,
                        min_batch_time = ?d, max_batch_time = ?D, mean_time_estimate = 0\<rparr>,
               to_time = of_nat ?K * ?d, start = 0, from_ns = of_nat ?K * ?d + ?D,
               reads = Suc (Suc ?K), calls = Suc ?K,
               log = Clock 0 # batches 0 1 (replicate (Suc ?K) 1)\<rparr>"
    by (subst gather_loop.simps, subst steady_last [OF d(1,2,3) fits]) simp_all
  finally have "map_option stats
      (gather_loop always_keep ?clk 17179869184 1 1 5 (steady_state ?K ?d 0)) =
      Some \<lparr>batch_count = 1073741825, batch_size = 1, time_sum = 25769803776,
              squared_time_sum = 274877906944, min_batch_time = 16,
              max_batch_time = 8589934592, mean_time_estimate = 0\<rparr>"
    by simp
  then show ?thesis
    by (simp add: gather_bench_stats_def gather_run_def init word_sle_eq word_sless_alt
        option.map_comp comp_def)
qed
text \<open>
  C6 at an execution on which it fails. Every call is kept, one call per batch, no
  warm-up, \<open>max_time_ns = 2\<^sup>3\<^sup>4\<close> (about 17 s). Each of the first \<open>2\<^sup>3\<^sup>0\<close> batches takes
  16 ns and the next one \<open>2\<^sup>3\<^sup>3\<close> ns (about 8.6 s). The sampler returns
  \<open>batch_count = 2\<^sup>3\<^sup>0 + 1\<close>, \<open>time_sum = 2\<^sup>3\<^sup>4 + 2\<^sup>3\<^sup>3\<close> and \<open>max_batch_time = 2\<^sup>3\<^sup>3\<close>. The
  product \<open>max_batch_time * batch_count = 2\<^sup>6\<^sup>3 + 2\<^sup>3\<^sup>3\<close> does not fit an \<^verbatim>\<open>int64_t\<close>:
  wrapped around it is negative, so the bound \<open>time_sum \<le> max * count\<close> is false in the
  machine arithmetic and the assertion of line 211 fails on statistics that
  \<^verbatim>\<open>gather_bench_stats\<close> produced.
\<close>

theorem gather_breaks_process_stats_assertion:
  "gather_bench_stats always_keep (steady_then_stall 1073741824 16 8589934592) 0 0
     17179869184 0 1 1 5 =
   Some (Inr \<lparr>batch_count = 1073741825, batch_size = 1, time_sum = 25769803776,
              squared_time_sum = 274877906944, min_batch_time = 16,
              max_batch_time = 8589934592, mean_time_estimate = 0\<rparr>)
   \<and> \<not> (25769803776 :: i64) \<le>s 8589934592 * 1073741825
   \<and> process_stats R \<lparr>batch_count = 1073741825, batch_size = 1, time_sum = 25769803776,
              squared_time_sum = 274877906944, min_batch_time = 16,
              max_batch_time = 8589934592, mean_time_estimate = 0\<rparr> 1 = Inl Assertion_failed"
  by (simp add: stalled_run process_stats_def word_sle_eq)

section \<open>C7: a noise floor multiple of 0\<close>

lemma calculate_clock_stats_Inr:
  "runs \<noteq> 0 \<Longrightarrow> \<exists>cs. calculate_clock_stats clk k runs = Inr cs"
  by (simp add: calculate_clock_stats_def Let_def)

text \<open>With the multiple 0 the noise floor handed to the sampler is 0, whatever the
  calibration measured.\<close>

lemma benchmark_zero_multiple:
  "benchmark R fn clk max_time_ms warm_up_ms runs_mult 0 =
     (case gather_bench_stats fn clk 2200 0 (max_time_ms * 1000000) (warm_up_ms * 1000000)
             0 1 5 of
        None \<Rightarrow> None
      | Some (Inl e) \<Rightarrow> Some (Inl e)
      | Some (Inr s) \<Rightarrow> Some (process_stats R s runs_mult))"
proof -
  obtain w where w: "calculate_clock_stats clk 0 100 = Inr w"
    using calculate_clock_stats_Inr [of 100 clk 0] by auto
  obtain cs where cs: "calculate_clock_stats clk 200 1000 = Inr cs"
    using calculate_clock_stats_Inr [of 1000 clk 200] by auto
  show ?thesis
    by (simp add: benchmark_def w cs MILISECOND_NANOSECONDS_eq)
qed

text \<open>The sampler with 15 s in all, a warm-up of 1 s and the noise floor 0, on a first
  call that takes 1000000001 ns. At the checkpoint \<open>remaining = 13999999999\<close>,
  \<open>num_checks = remaining / 1\<close>, and \<open>total_time * num_checks = 14000000012999999999\<close>
  is beyond \<open>2\<^sup>6\<^sup>3\<close>: wrapped around it is negative, the guard of line 185 sets the
  divisor to 1, and the batch size becomes \<open>1 * 13999999999 / 1\<close>.\<close>

lemma stall_run:
  "gather_bench_stats always_keep stall_clock 2200 0 15000000000 1000000000 0 1 5 =
   Some (Inr \<lparr>batch_count = 1, batch_size = 13999999999, time_sum = 12999999999,
              squared_time_sum = 2979303310614035457, min_batch_time = 12999999999,
              max_batch_time = 12999999999, mean_time_estimate = 1000000001\<rparr>)"
  apply (simp add: gather_bench_stats_def gather_run_def word_sle_eq word_sless_alt
      init_state_def)
  apply (subst gather_loop.simps)
  apply (simp add: loop_body_cases measure_batch_eq always_keep_def
      accumulate_def SENTINEL_eq word_sle_eq
      word_sless_alt stall_clock_def resize_def sdiv64_def signed_divide_int_def)
  apply (subst gather_loop.simps)
  apply (simp add: loop_body_cases measure_batch_eq always_keep_def
      accumulate_def SENTINEL_eq word_sle_eq
      word_sless_alt stall_clock_def del: upt_rec_numeral)
  done

text \<open>On these statistics \<^verbatim>\<open>process_stats\<close> returns a result under every rounding:
  with one batch, the mean, the minimum and the maximum are the same quotient.\<close>

lemma stall_result:
  "map_sum id result_batch_size
     (process_stats R \<lparr>batch_count = 1, batch_size = 13999999999, time_sum = 12999999999,
              squared_time_sum = 2979303310614035457, min_batch_time = 12999999999,
              max_batch_time = 12999999999, mean_time_estimate = 1000000001\<rparr> 1) =
   Inr 13999999999"
  by (simp add: process_stats_def Let_def MILISECOND_NANOSECONDS_eq word_sle_eq word_sless_alt
      ddiv_nonneg to_double_nonneg)

text \<open>
  C7 at an execution on which it fails: \<^verbatim>\<open>benchmark(15000, 1000, fn, 1, 0)\<close> with a
  measured function that keeps every call, on the clock \<open>stall_clock\<close>. The result
  reports a batch size of 13999999999, not 1.
\<close>

theorem benchmark_zero_multiple_coalesces:
  "map_option (map_sum id result_batch_size)
     (benchmark R always_keep stall_clock 15000 1000 1 0) =
   Some (Inr 13999999999)"
  by (simp add: benchmark_zero_multiple stall_run stall_result)

section \<open>C9: the clock calibrator\<close>

lemma clock_deltas_0 [simp]: "clock_deltas clk k 0 = []"
  by (simp add: clock_deltas_def)

lemma clock_deltas_Suc:
  "clock_deltas clk k (Suc n) = (clk (Suc k) - clk k) # clock_deltas clk (Suc (Suc k)) n"
proof -
  have "[0..<Suc n] = 0 # map Suc [0..<n]"
    by (simp add: upt_conv_Cons map_Suc_upt del: upt_Suc)
  then show ?thesis
    by (simp add: clock_deltas_def comp_def del: upt_Suc)
qed

lemma clock_deltas_numeral:
  "clock_deltas clk k (numeral n) =
     (clk (Suc k) - clk k) # clock_deltas clk (Suc (Suc k)) (pred_numeral n)"
  by (simp add: numeral_eq_Suc clock_deltas_Suc)

lemma clock_loop_eq:
  "clock_loop clk k n (cs, acc) =
     (cs\<lparr>cs_min := fold (\<lambda>d m. if d <s m then d else m) (clock_deltas clk k n) (cs_min cs),
         cs_max := fold (\<lambda>d m. if m <s d then d else m) (clock_deltas clk k n) (cs_max cs)\<rparr>,
      acc + sum_list (clock_deltas clk k n))"
proof (induction n arbitrary: k cs acc)
  case 0
  then show ?case by simp
next
  case (Suc n)
  show ?case
    by (simp add: Let_def Suc.IH clock_deltas_Suc add.assoc)
qed

lemma fold_smin:
  fixes ds :: "i64 list"
  defines "f \<equiv> \<lambda>d m. if d <s m then d else m"
  shows "fold f ds m0 \<le>s m0 \<and> (\<forall>d\<in>set ds. fold f ds m0 \<le>s d) \<and>
         (fold f ds m0 = m0 \<or> fold f ds m0 \<in> set ds)"
proof (induction ds arbitrary: m0)
  case Nil
  then show ?case by simp
next
  case (Cons d ds)
  from Cons.IH [of "f d m0"] show ?case
    by (auto simp: f_def word_sle_eq word_sless_alt split: if_splits)
qed

lemma fold_smax:
  fixes ds :: "i64 list"
  defines "f \<equiv> \<lambda>d m. if m <s d then d else m"
  shows "m0 \<le>s fold f ds m0 \<and> (\<forall>d\<in>set ds. d \<le>s fold f ds m0) \<and>
         (fold f ds m0 = m0 \<or> fold f ds m0 \<in> set ds)"
proof (induction ds arbitrary: m0)
  case Nil
  then show ?case by simp
next
  case (Cons d ds)
  from Cons.IH [of "f d m0"] show ?case
    by (auto simp: f_def word_sle_eq word_sless_alt split: if_splits)
qed

lemma clock_stats_example:
  "calculate_clock_stats (clock_of_list [10, 60, 100, 130]) 0 2 =
     Inr \<lparr>average = 40, cs_min = 30, cs_max = 50\<rparr>
   \<and> clock_deltas (clock_of_list [10, 60, 100, 130]) 0 (nat (sint (2::i64))) = [50, 30]"
  by (simp add: calculate_clock_stats_def clock_loop_eq clock_deltas_numeral clock_deltas_Suc
      Let_def SENTINEL_eq sdiv64_def signed_divide_int_def word_sless_alt)

text \<open>The running minimum starts from the sentinel \<open>2\<^sup>6\<^sup>2\<close> and the running maximum from
  \<open>- 2\<^sup>6\<^sup>2\<close> (lines 313 and 314).\<close>

lemma calculate_clock_stats_general:
  assumes "0 <s runs"
  shows "\<exists>cs. calculate_clock_stats clock_ns k runs = Inr cs \<and>
     average cs =
       (if sdiv64 (sum_list (clock_deltas clock_ns k (nat (sint runs)))) runs = 0 then 1
        else sdiv64 (sum_list (clock_deltas clock_ns k (nat (sint runs)))) runs) \<and>
     (\<forall>d \<in> set (clock_deltas clock_ns k (nat (sint runs))). cs_min cs \<le>s d) \<and>
     (if \<exists>d \<in> set (clock_deltas clock_ns k (nat (sint runs))). d \<le>s SENTINEL
      then cs_min cs \<in> set (clock_deltas clock_ns k (nat (sint runs)))
      else cs_min cs = SENTINEL) \<and>
     (\<forall>d \<in> set (clock_deltas clock_ns k (nat (sint runs))). d \<le>s cs_max cs) \<and>
     (if \<exists>d \<in> set (clock_deltas clock_ns k (nat (sint runs))). - SENTINEL \<le>s d
      then cs_max cs \<in> set (clock_deltas clock_ns k (nat (sint runs)))
      else cs_max cs = - SENTINEL)"
proof -
  let ?ds = "clock_deltas clock_ns k (nat (sint runs))"
  let ?mn = "fold (\<lambda>d m. if d <s m then d else m) ?ds SENTINEL"
  let ?mx = "fold (\<lambda>d m. if m <s d then d else m) ?ds (- SENTINEL)"
  from assms have nz: "runs \<noteq> 0" by (auto simp: word_sless_alt)
  note mn = fold_smin [of ?ds SENTINEL] and mx = fold_smax [of "- SENTINEL" ?ds]
  have mn': "if \<exists>d \<in> set ?ds. d \<le>s SENTINEL then ?mn \<in> set ?ds else ?mn = SENTINEL"
  proof (cases "\<exists>d \<in> set ?ds. d \<le>s SENTINEL")
    case True
    then obtain d where d: "d \<in> set ?ds" "d \<le>s SENTINEL" by blast
    show ?thesis
    proof (cases "?mn = SENTINEL")
      case True
      with mn d have "SENTINEL \<le>s d" by auto
      with d have "d = SENTINEL" by (simp add: signed.order.antisym)
      with d True show ?thesis by auto
    next
      case False
      with mn True show ?thesis by auto
    qed
  next
    case False
    with mn show ?thesis by auto
  qed
  have mx': "if \<exists>d \<in> set ?ds. - SENTINEL \<le>s d then ?mx \<in> set ?ds else ?mx = - SENTINEL"
  proof (cases "\<exists>d \<in> set ?ds. - SENTINEL \<le>s d")
    case True
    then obtain d where d: "d \<in> set ?ds" "- SENTINEL \<le>s d" by blast
    show ?thesis
    proof (cases "?mx = - SENTINEL")
      case True
      with mx d have "d \<le>s - SENTINEL" by auto
      with d have "d = - SENTINEL" by (simp add: signed.order.antisym)
      with d True show ?thesis by auto
    next
      case False
      with mx True show ?thesis by auto
    qed
  next
    case False
    with mx show ?thesis by auto
  qed
  show ?thesis
    using mn mx mn' mx' nz
    by (simp add: calculate_clock_stats_def clock_loop_eq Let_def)
qed

text \<open>
  C9: let \<open>runs > 0\<close>, and let the two reads of each of the \<open>runs\<close> samples be at most
  \<open>2\<^sup>6\<^sup>2\<close> ns (146 years) apart, in either direction. Then the calibrator returns
  statistics whose average is the sum of the \<open>runs\<close> deltas divided by \<open>runs\<close>
  (\<^verbatim>\<open>int64_t\<close> sum and division), or 1 when that quotient is 0; whose minimum is one of
  the deltas and at most every delta; and whose maximum is one of the deltas and at
  least every delta.
\<close>

theorem calculate_clock_stats_result:
  assumes "0 <s runs"
    and "\<forall>d \<in> set (clock_deltas clock_ns k (nat (sint runs))). - SENTINEL \<le>s d \<and> d \<le>s SENTINEL"
  shows "\<exists>cs. calculate_clock_stats clock_ns k runs = Inr cs \<and>
     average cs =
       (if sdiv64 (sum_list (clock_deltas clock_ns k (nat (sint runs)))) runs = 0 then 1
        else sdiv64 (sum_list (clock_deltas clock_ns k (nat (sint runs)))) runs) \<and>
     cs_min cs \<in> set (clock_deltas clock_ns k (nat (sint runs))) \<and>
     (\<forall>d \<in> set (clock_deltas clock_ns k (nat (sint runs))). cs_min cs \<le>s d) \<and>
     cs_max cs \<in> set (clock_deltas clock_ns k (nat (sint runs))) \<and>
     (\<forall>d \<in> set (clock_deltas clock_ns k (nat (sint runs))). d \<le>s cs_max cs)"
proof -
  let ?ds = "clock_deltas clock_ns k (nat (sint runs))"
  from assms(1) have "0 < nat (sint runs)" by (simp add: word_sless_alt)
  then have "?ds \<noteq> []" by (simp add: clock_deltas_def)
  then obtain d where d: "d \<in> set ?ds" by (cases ?ds) auto
  with assms(2) have "\<exists>d \<in> set ?ds. d \<le>s SENTINEL" "\<exists>d \<in> set ?ds. - SENTINEL \<le>s d"
    by blast+
  with calculate_clock_stats_general [OF assms(1), of clock_ns k] show ?thesis
    by auto
qed

theorem calculate_clock_stats_result_witness:
  "(0::i64) <s 2 \<and>
   clock_deltas (clock_of_list [10, 60, 100, 130]) 0 (nat (sint (2::i64))) = [50, 30] \<and>
   - SENTINEL \<le>s 50 \<and> 50 \<le>s SENTINEL \<and> - SENTINEL \<le>s 30 \<and> 30 \<le>s SENTINEL \<and>
   calculate_clock_stats (clock_of_list [10, 60, 100, 130]) 0 2 =
     Inr \<lparr>average = 40, cs_min = 30, cs_max = 50\<rparr> \<and>
   (40::i64) = sdiv64 (sum_list [50, 30]) 2 \<and> (30::i64) \<in> set [50, 30] \<and>
   (50::i64) \<in> set [50, 30]"
proof -
  have h: "(0::i64) <s 2" by (simp add: word_sless_alt)
  have ds: "clock_deltas (clock_of_list [10, 60, 100, 130]) 0 (nat (sint (2::i64))) = [50, 30]"
    using clock_stats_example by simp
  have b: "\<forall>d \<in> set [50, 30 :: i64]. - SENTINEL \<le>s d \<and> d \<le>s SENTINEL"
    by (simp add: SENTINEL_eq word_sle_eq)
  from b have b': "\<forall>d \<in> set (clock_deltas (clock_of_list [10, 60, 100, 130]) 0
      (nat (sint (2::i64)))). - SENTINEL \<le>s d \<and> d \<le>s SENTINEL"
    by (simp only: ds)
  from calculate_clock_stats_result [OF h b'] clock_stats_example h b ds
  show ?thesis by (simp add: sdiv64_def signed_divide_int_def)
qed

end
